theory Spec2Isabelle
  imports Complex_Main
begin

section \<open>Shared types (types.ts)\<close>

datatype AppMode =
  CLASSIFICATION | OBJECT_DETECTION | HAND_GESTURES | SPEECH_TO_TEXT | TEXT_TO_SPEECH

text \<open>
  \<open>ClassificationResult | DetectionResult | GestureResult\<close>: the three shapes the
  vision service answers with. \<open>null\<close> is \<open>None\<close> of \<open>VisionResult option\<close>.
\<close>

datatype VisionResult =
  ClassificationResult string string string
| DetectionResult "(string \<times> string) list"
| GestureResult string string string

section \<open>The service wrappers (services/geminiService.ts)\<close>

text \<open>
  A promise of the platform (the file reader, the generative service) is modelled by how it
  settles. What the service sends back is an input of every wrapper: the wrappers only
  inspect the answer.
\<close>

datatype 'a settled = Fulfilled 'a | Rejected

text \<open>Every failure is a thrown \<open>Error\<close> in the source; the constructors keep the throw sites apart.\<close>

datatype InferenceError =
  ReadFailed | RequestFailed | NoResponseText | MalformedJSON | NoAudioData | TypeError

record InlineData =
  inlineBytes :: "string option"

record Part =
  inlineData :: "InlineData option"

record Content =
  parts :: "Part list option"

record Candidate =
  content :: "Content option"

record GenerateContentResponse =
  responseText :: "string option"
  candidates :: "Candidate list option"

text \<open>JavaScript truthiness of an optional string: \<open>undefined\<close> and \<open>""\<close> are falsy.\<close>

definition truthy :: "string option \<Rightarrow> bool" where
  "truthy t = (case t of None \<Rightarrow> False | Some v \<Rightarrow> v \<noteq> [])"

text \<open>
  \<open>classifyImage\<close>: read the file, ask the service, then
  \<open>if (!text) throw new Error("No response text"); return JSON.parse(text)\<close>.
  \<open>JSON_parse\<close> is the platform's parser (\<open>None\<close> when it throws).
\<close>

definition classifyImage ::
  "(string \<Rightarrow> VisionResult option) \<Rightarrow> string settled \<Rightarrow> GenerateContentResponse settled
    \<Rightarrow> InferenceError + VisionResult" where
  "classifyImage JSON_parse imagePart reply =
     (case imagePart of
        Rejected \<Rightarrow> Inl ReadFailed
      | Fulfilled _ \<Rightarrow>
          (case reply of
             Rejected \<Rightarrow> Inl RequestFailed
           | Fulfilled response \<Rightarrow>
               (if \<not> truthy (responseText response) then Inl NoResponseText
                else (case JSON_parse (the (responseText response)) of
                        None \<Rightarrow> Inl MalformedJSON
                      | Some v \<Rightarrow> Inr v))))"

definition detectObjects ::
  "(string \<Rightarrow> VisionResult option) \<Rightarrow> string settled \<Rightarrow> GenerateContentResponse settled
    \<Rightarrow> InferenceError + VisionResult" where
  "detectObjects JSON_parse imagePart reply =
     (case imagePart of
        Rejected \<Rightarrow> Inl ReadFailed
      | Fulfilled _ \<Rightarrow>
          (case reply of
             Rejected \<Rightarrow> Inl RequestFailed
           | Fulfilled response \<Rightarrow>
               (if \<not> truthy (responseText response) then Inl NoResponseText
                else (case JSON_parse (the (responseText response)) of
                        None \<Rightarrow> Inl MalformedJSON
                      | Some v \<Rightarrow> Inr v))))"

definition detectHandGestures ::
  "(string \<Rightarrow> VisionResult option) \<Rightarrow> string settled \<Rightarrow> GenerateContentResponse settled
    \<Rightarrow> InferenceError + VisionResult" where
  "detectHandGestures JSON_parse imagePart reply =
     (case imagePart of
        Rejected \<Rightarrow> Inl ReadFailed
      | Fulfilled _ \<Rightarrow>
          (case reply of
             Rejected \<Rightarrow> Inl RequestFailed
           | Fulfilled response \<Rightarrow>
               (if \<not> truthy (responseText response) then Inl NoResponseText
                else (case JSON_parse (the (responseText response)) of
                        None \<Rightarrow> Inl MalformedJSON
                      | Some v \<Rightarrow> Inr v))))"

text \<open>
  \<open>transcribeAudio\<close>: \<open>resolve(response.text || "No transcription generated.")\<close>; the
  reader's error and the request's failure reject the promise.
\<close>

definition transcribeAudio ::
  "string settled \<Rightarrow> GenerateContentResponse settled \<Rightarrow> InferenceError + string" where
  "transcribeAudio audioData reply =
     (case audioData of
        Rejected \<Rightarrow> Inl ReadFailed
      | Fulfilled _ \<Rightarrow>
          (case reply of
             Rejected \<Rightarrow> Inl RequestFailed
           | Fulfilled response \<Rightarrow>
               Inr (if truthy (responseText response) then the (responseText response)
                    else ''No transcription generated.'')))"

text \<open>
  \<open>synthesizeSpeech\<close>: the first part of the first candidate must carry inline data, or
  \<open>throw new Error("No audio data returned")\<close>. A candidate without \<open>content\<close> makes
  \<open>candidates[0].content.parts\<close> a type error, which the \<open>catch\<close> rethrows.
\<close>

definition synthesizeSpeech :: "GenerateContentResponse settled \<Rightarrow> InferenceError + string" where
  "synthesizeSpeech reply =
     (case reply of
        Rejected \<Rightarrow> Inl RequestFailed
      | Fulfilled response \<Rightarrow>
          (case candidates response of
             Some (c # _) \<Rightarrow>
               (case content c of
                  None \<Rightarrow> Inl TypeError
                | Some ct \<Rightarrow>
                    (case parts ct of
                       Some (audioPart # _) \<Rightarrow>
                         (case inlineData audioPart of
                            Some d \<Rightarrow>
                              (if truthy (inlineBytes d) then Inr (the (inlineBytes d))
                               else Inl NoAudioData)
                          | None \<Rightarrow> Inl NoAudioData)
                     | _ \<Rightarrow> Inl NoAudioData))
           | _ \<Rightarrow> Inl NoAudioData))"

text \<open>
  An empty response: the service answered, and the answer carries no payload. For the text
  operations that is a missing or empty \<open>text\<close>; for synthesis, no audio bytes at
  \<open>candidates[0].content.parts[0].inlineData.data\<close>.
\<close>

definition emptyText :: "GenerateContentResponse \<Rightarrow> bool" where
  "emptyText response = (\<not> truthy (responseText response))"

definition audioPayload :: "GenerateContentResponse \<Rightarrow> string option" where
  "audioPayload response =
     (case candidates response of
        Some (c # _) \<Rightarrow>
          (case content c of
             Some ct \<Rightarrow>
               (case parts ct of
                  Some (p # _) \<Rightarrow>
                    (case inlineData p of Some d \<Rightarrow> inlineBytes d | None \<Rightarrow> None)
                | _ \<Rightarrow> None)
           | None \<Rightarrow> None)
      | _ \<Rightarrow> None)"

definition emptyAudio :: "GenerateContentResponse \<Rightarrow> bool" where
  "emptyAudio response = (\<not> truthy (audioPayload response))"

section \<open>The speech panel (components/SpeechPanel.tsx)\<close>

text \<open>
  A JavaScript string is a sequence of UTF-16 code units. \<open>String.prototype.trim\<close>
  removes the white space and line terminators of ECMAScript from both ends.
\<close>

type_synonym JSString = "nat list"

definition isWhiteSpace :: "nat \<Rightarrow> bool" where
  "isWhiteSpace c =
     (c = 9 \<or> c = 10 \<or> c = 11 \<or> c = 12 \<or> c = 13 \<or> c = 32 \<or> c = 160 \<or> c = 5760
      \<or> (8192 \<le> c \<and> c \<le> 8202) \<or> c = 8232 \<or> c = 8233 \<or> c = 8239 \<or> c = 8287
      \<or> c = 12288 \<or> c = 65279)"

definition trim :: "JSString \<Rightarrow> JSString" where
  "trim s = rev (dropWhile isWhiteSpace (rev (dropWhile isWhiteSpace s)))"

record SpeechPanel =
  isRecording :: bool
  transcription :: string
  textInput :: JSString
  audioUrl :: "string option"
  isPlaying :: bool
  selectedVoice :: string
  speechLoading :: bool
  speechError :: "string option"

text \<open>
  \<open>handleTTS\<close> up to its \<open>await\<close>: the guard, the three setters, and the request it
  issues (\<open>synthesizeSpeech(textInput, selectedVoice)\<close>), \<open>None\<close> when it returned early.
\<close>

definition handleTTS :: "SpeechPanel \<Rightarrow> SpeechPanel \<times> (JSString \<times> string) option" where
  "handleTTS s =
     (if trim (textInput s) = [] then (s, None)
      else (s\<lparr>speechLoading := True, speechError := None, audioUrl := None\<rparr>,
            Some (textInput s, selectedVoice s)))"

text \<open>
  \<open>handleTTS\<close> after the \<open>await\<close>: \<open>atob\<close> and \<open>URL.createObjectURL\<close> are the
  platform's (\<open>atob\<close> throws on a string that is not base64); any throw ends in the
  \<open>catch\<close>, and \<open>finally\<close> clears the loading flag.
\<close>

definition handleTTS_settled ::
  "(string \<Rightarrow> nat list option) \<Rightarrow> (nat list \<Rightarrow> string) \<Rightarrow> InferenceError + string
    \<Rightarrow> SpeechPanel \<Rightarrow> SpeechPanel" where
  "handleTTS_settled atob createObjectURL base64Audio s =
     (case base64Audio of
        Inl _ \<Rightarrow> s\<lparr>speechError := Some ''Failed to convert text to speech.'', speechLoading := False\<rparr>
      | Inr b \<Rightarrow>
          (case atob b of
             None \<Rightarrow> s\<lparr>speechError := Some ''Failed to convert text to speech.'', speechLoading := False\<rparr>
           | Some bytes \<Rightarrow> s\<lparr>audioUrl := Some (createObjectURL bytes), speechLoading := False\<rparr>))"

text \<open>
  The Generate Audio button: \<open>disabled={!textInput.trim() || isLoading}\<close>; a disabled
  button dispatches no click.
\<close>

definition clickGenerateAudio :: "SpeechPanel \<Rightarrow> SpeechPanel \<times> (JSString \<times> string) option" where
  "clickGenerateAudio s =
     (if trim (textInput s) = [] \<or> speechLoading s then (s, None) else handleTTS s)"

section \<open>The vision panel (components/VisionPanel.tsx)\<close>

subsection \<open>Data\<close>

datatype InputSource = upload | camera

datatype FacingMode = environment | user

text \<open>A media stream is the list of its tracks, each by its \<open>readyState\<close>.\<close>

datatype readyState = live | ended

type_synonym MediaStream = "readyState list"

record Blob =
  blobType :: string
  blobSize :: nat

text \<open>
  The video element as the code reads it. \<open>srcObject\<close> is the index of the attached stream
  in the panel's store of acquired streams.
\<close>

record HTMLVideoElement =
  srcObject :: "nat option"
  videoWidth :: nat
  videoHeight :: nat

subsection \<open>Sampling a frame\<close>

text \<open>
  \<open>captureFrame\<close> returns \<open>null\<close> when a ref or the 2d context is missing; otherwise it
  sizes the canvas to the video, draws the frame and resolves with what
  \<open>canvas.toBlob(cb, 'image/jpeg', 0.8)\<close> hands to its callback. The call is the value
  here: canvas width, canvas height, type, quality.
\<close>

datatype ToBlobCall = ToBlob nat nat string rat

definition captureFrame :: "HTMLVideoElement option \<Rightarrow> bool \<Rightarrow> bool \<Rightarrow> ToBlobCall option" where
  "captureFrame videoRef_current canvasRef_current getContext2d =
     (case videoRef_current of
        None \<Rightarrow> None
      | Some video \<Rightarrow>
          (if \<not> canvasRef_current then None
           else if \<not> getContext2d then None
           else Some (ToBlob (videoWidth video) (videoHeight video) ''image/jpeg'' (8 / 10))))"

text \<open>The promise's value, given the browser's \<open>toBlob\<close>.\<close>

definition captureFrame_resolved ::
  "(nat \<Rightarrow> nat \<Rightarrow> string \<Rightarrow> rat \<Rightarrow> Blob option) \<Rightarrow> ToBlobCall option \<Rightarrow> Blob option" where
  "captureFrame_resolved toBlob c =
     (case c of None \<Rightarrow> None | Some (ToBlob w h ty q) \<Rightarrow> toBlob w h ty q)"

subsection \<open>The component's state\<close>

text \<open>
  Who awaits a capture or a request: the run of \<open>analyzeLoop\<close> of one instance of the
  auto-analyze effect (instances are numbered; \<open>mounted\<close> of instance \<open>g\<close> is true exactly
  while \<open>g\<close> is the current one), \<open>handleManualCapture\<close>, or the upload button.
\<close>

datatype Caller = Loop nat | Manual | UploadButton

text \<open>A pending \<open>await captureFrame()\<close>, with the values its closure captured at render.\<close>

record Capture =
  captureCaller :: Caller
  captureMode :: AppMode
  captureAuto :: bool
  captureCall :: "ToBlobCall option"

text \<open>A pending service call inside \<open>processImage\<close>, with the closure of that \<open>processImage\<close>.\<close>

record Request =
  requestCaller :: Caller
  requestMode :: AppMode
  requestAuto :: bool
  requestImage :: Blob

record VisionPanel =
  mode :: AppMode
  source :: InputSource
  selectedImage :: "Blob option"
  isStreaming :: bool
  isAutoAnalyze :: bool
  cameraError :: "string option"
  facingMode :: FacingMode
  isLoading :: bool
  result :: "VisionResult option"
  error :: "string option"
  streamRef :: "nat option"
  videoRef :: "HTMLVideoElement option"
  streams :: "MediaStream list"
  pendingMedia :: nat
  effectGen :: nat
  timeoutId :: "nat option"
  modeDep :: AppMode
  facingDep :: FacingMode
  loopDeps :: "bool \<times> bool \<times> bool \<times> AppMode"
  captures :: "Capture list"
  requests :: "Request list"
  unmounted :: bool

text \<open>
  \<open>streams\<close> is every stream \<open>getUserMedia\<close> has handed to this panel, \<open>pendingMedia\<close> the
  number of \<open>getUserMedia\<close> calls not yet settled. \<open>effectGen\<close> numbers the current instance of
  the auto-analyze effect and \<open>timeoutId\<close> is the delay of its pending timer. \<open>modeDep\<close>,
  \<open>facingDep\<close> and \<open>loopDeps\<close> are the dependency values of the last commit.
\<close>

definition isVisionMode :: "AppMode \<Rightarrow> bool" where
  "isVisionMode m = (m = CLASSIFICATION \<or> m = OBJECT_DETECTION \<or> m = HAND_GESTURES)"

definition mountVisionPanel :: "AppMode \<Rightarrow> VisionPanel" where
  "mountVisionPanel m =
     \<lparr>mode = m, source = upload, selectedImage = None, isStreaming = False,
      isAutoAnalyze = False, cameraError = None, facingMode = environment, isLoading = False,
      result = None, error = None, streamRef = None, videoRef = None, streams = [],
      pendingMedia = 0, effectGen = 0, timeoutId = None, modeDep = m, facingDep = environment,
      loopDeps = (False, False, False, m), captures = [], requests = [], unmounted = False\<rparr>"

subsection \<open>Camera handlers\<close>

text \<open>
  \<open>stopCamera\<close>, the part that acts at once: every track of the stream in \<open>streamRef\<close> is
  stopped, the ref is cleared, the video element is detached (a video element without a
  source reports the size 0 x 0).
\<close>

definition stopCamera_refs :: "VisionPanel \<Rightarrow> VisionPanel" where
  "stopCamera_refs s =
     s\<lparr>streams :=
         (case streamRef s of
            None \<Rightarrow> streams s
          | Some i \<Rightarrow>
              (if i < length (streams s)
               then (streams s)[i := map (\<lambda>track. ended) (streams s ! i)]
               else streams s)),
       streamRef := None,
       videoRef :=
         (case videoRef s of
            None \<Rightarrow> None
          | Some v \<Rightarrow> Some (v\<lparr>srcObject := None, videoWidth := 0, videoHeight := 0\<rparr>))\<rparr>"

text \<open>\<open>stopCamera\<close>, the two state setters.\<close>

definition stopCamera_state :: "VisionPanel \<Rightarrow> VisionPanel" where
  "stopCamera_state s = s\<lparr>isStreaming := False, isAutoAnalyze := False\<rparr>"

definition stopCamera :: "VisionPanel \<Rightarrow> VisionPanel" where
  "stopCamera s = stopCamera_state (stopCamera_refs s)"

text \<open>
  \<open>startCamera\<close> up to \<open>await getUserMedia\<close>, and the two ways the promise settles. The
  new stream is stored in \<open>streamRef\<close> whatever the ref held before. A video element reports
  the size 0 x 0 until the attached stream has delivered its first frame (\<open>VideoResized\<close>).
\<close>

definition startCamera :: "VisionPanel \<Rightarrow> VisionPanel" where
  "startCamera s = s\<lparr>cameraError := None, pendingMedia := pendingMedia s + 1\<rparr>"

definition startCamera_granted :: "MediaStream \<Rightarrow> VisionPanel \<Rightarrow> VisionPanel" where
  "startCamera_granted stream s =
     (if pendingMedia s = 0 then s
      else s\<lparr>pendingMedia := pendingMedia s - 1,
             streams := streams s @ [stream],
             streamRef := Some (length (streams s)),
             videoRef :=
               (case videoRef s of
                  None \<Rightarrow> None
                | Some v \<Rightarrow>
                    Some (v\<lparr>srcObject := Some (length (streams s)),
                            videoWidth := 0, videoHeight := 0\<rparr>)),
             isStreaming := True\<rparr>)"

definition startCamera_denied :: "VisionPanel \<Rightarrow> VisionPanel" where
  "startCamera_denied s =
     (if pendingMedia s = 0 then s
      else s\<lparr>pendingMedia := pendingMedia s - 1,
             cameraError := Some ''Unable to access camera. Please check permissions.''\<rparr>)"

subsection \<open>The auto-analyze loop\<close>

definition loopDepsOf :: "VisionPanel \<Rightarrow> bool \<times> bool \<times> bool \<times> AppMode" where
  "loopDepsOf s = (isAutoAnalyze s, isStreaming s, isLoading s, mode s)"

text \<open>
  In the panel the canvas is rendered beside the video element, and a canvas that has no
  other context grants the 2d context.
\<close>

definition sampleFrame :: "VisionPanel \<Rightarrow> ToBlobCall option" where
  "sampleFrame s = captureFrame (videoRef s) (videoRef s \<noteq> None) True"

text \<open>
  \<open>analyzeLoop\<close> of the current effect instance, from its entry to its first \<open>await\<close>.
  It is entered by the effect and by its timer, both of the current instance, so
  \<open>mounted\<close> is true and the closure's values are those of the committed render.
  Every \<open>await captureFrame()\<close> is kept pending until a \<open>BlobReady\<close> event, also the one
  whose \<open>captureFrame\<close> returned \<open>null\<close> before \<open>toBlob\<close> (the code goes on in the same
  task there): the model allows more interleavings than the code, never fewer.
\<close>

definition analyzeLoop :: "VisionPanel \<Rightarrow> VisionPanel" where
  "analyzeLoop s =
     (if \<not> isAutoAnalyze s \<or> \<not> isStreaming s then s
      else if isLoading s then s\<lparr>timeoutId := Some 200\<rparr>
      else s\<lparr>captures := captures s @
               [\<lparr>captureCaller = Loop (effectGen s), captureMode = mode s,
                 captureAuto = isAutoAnalyze s, captureCall = sampleFrame s\<rparr>]\<rparr>)"

text \<open>
  The end of \<open>analyzeLoop\<close>, after its awaits, for the run of instance \<open>g\<close>:
  \<open>if (mounted && isAutoAnalyze) timeoutId = setTimeout(analyzeLoop, delay)\<close>.
\<close>

definition analyzeLoop_reschedule :: "nat \<Rightarrow> bool \<Rightarrow> AppMode \<Rightarrow> VisionPanel \<Rightarrow> VisionPanel" where
  "analyzeLoop_reschedule g auto m s =
     (if g = effectGen s \<and> auto
      then s\<lparr>timeoutId := Some (if m = HAND_GESTURES then 500 else 2500)\<rparr>
      else s)"

definition resume :: "Caller \<Rightarrow> bool \<Rightarrow> AppMode \<Rightarrow> VisionPanel \<Rightarrow> VisionPanel" where
  "resume c auto m s =
     (case c of Loop g \<Rightarrow> analyzeLoop_reschedule g auto m s | _ \<Rightarrow> s)"

text \<open>
  \<open>processImage\<close> up to the service call. In a mode that is none of the three vision modes
  no call is made, \<open>finally\<close> runs at once and the caller goes on.
\<close>

definition processImage :: "Caller \<Rightarrow> bool \<Rightarrow> AppMode \<Rightarrow> Blob \<Rightarrow> VisionPanel \<Rightarrow> VisionPanel" where
  "processImage c auto m img s =
     (let s1 = s\<lparr>isLoading := True,
                 result := (if \<not> auto then None else result s),
                 error := None\<rparr>
      in if isVisionMode m
         then s1\<lparr>requests := requests s1 @
                   [\<lparr>requestCaller = c, requestMode = m, requestAuto = auto,
                     requestImage = img\<rparr>]\<rparr>
         else resume c auto m (s1\<lparr>isLoading := False\<rparr>))"

text \<open>
  \<open>processImage\<close> from the service's answer on (the value is what \<open>classifyImage\<close>,
  \<open>detectObjects\<close> or \<open>detectHandGestures\<close> returned), then the caller's continuation.
\<close>

definition processImage_settled ::
  "Request \<Rightarrow> InferenceError + VisionResult \<Rightarrow> VisionPanel \<Rightarrow> VisionPanel" where
  "processImage_settled r answer s =
     (let s1 = (case answer of
                  Inr data \<Rightarrow> s\<lparr>result := Some data\<rparr>
                | Inl _ \<Rightarrow>
                    (if \<not> requestAuto r then s\<lparr>error := Some ''Failed to process image.''\<rparr>
                     else s));
          s2 = s1\<lparr>isLoading := False\<rparr>
      in resume (requestCaller r) (requestAuto r) (requestMode r) s2)"

text \<open>The promise of a pending capture settles with the browser's blob.\<close>

definition capture_settled :: "Capture \<Rightarrow> Blob option \<Rightarrow> VisionPanel \<Rightarrow> VisionPanel" where
  "capture_settled k blob s =
     (case (if captureCall k = None then None else blob) of
        None \<Rightarrow> resume (captureCaller k) (captureAuto k) (captureMode k) s
      | Some img \<Rightarrow> processImage (captureCaller k) (captureAuto k) (captureMode k) img s)"

text \<open>\<open>handleManualCapture\<close> up to its \<open>await captureFrame()\<close>.\<close>

definition handleManualCapture :: "VisionPanel \<Rightarrow> VisionPanel" where
  "handleManualCapture s =
     s\<lparr>captures := captures s @
         [\<lparr>captureCaller = Manual, captureMode = mode s, captureAuto = isAutoAnalyze s,
           captureCall = sampleFrame s\<rparr>]\<rparr>"

subsection \<open>Rendering: the effects\<close>

text \<open>
  One commit. An effect whose dependencies changed is destroyed and created again:
  \<^item> the mode effect (\<open>[mode]\<close>) queues \<open>setResult(null)\<close>, \<open>setError(null)\<close>,
    \<open>setIsAutoAnalyze(false)\<close>;
  \<^item> the facing effect (\<open>[facingMode]\<close>) runs \<open>stopCamera(); startCamera()\<close> when the render
    was streaming;
  \<^item> the auto-analyze effect (\<open>[isAutoAnalyze, isStreaming, isLoading, mode]\<close>): its cleanup
    sets \<open>mounted = false\<close> of the old instance and clears its timer; the new instance calls
    \<open>analyzeLoop()\<close> when the render has \<open>isAutoAnalyze\<close>.
  Refs and devices change at once; the queued setters take effect after the effects, for
  the next render.
\<close>

definition render :: "VisionPanel \<Rightarrow> VisionPanel" where
  "render s =
     (let modeChanged = (modeDep s \<noteq> mode s);
          restart = (facingDep s \<noteq> facingMode s \<and> isStreaming s);
          loopChanged = (loopDeps s \<noteq> loopDepsOf s);
          s1 = (if loopChanged then s\<lparr>effectGen := effectGen s + 1, timeoutId := None\<rparr> else s);
          s2 = (if restart then (stopCamera_refs s1)\<lparr>pendingMedia := pendingMedia s1 + 1\<rparr> else s1);
          s3 = (if loopChanged \<and> isAutoAnalyze s2 then analyzeLoop s2 else s2);
          s4 = s3\<lparr>modeDep := mode s, facingDep := facingMode s, loopDeps := loopDepsOf s\<rparr>;
          s5 = (if modeChanged then s4\<lparr>result := None, error := None, isAutoAnalyze := False\<rparr>
                else s4);
          s6 = (if restart then (stopCamera_state s5)\<lparr>cameraError := None\<rparr> else s5)
      in s6)"

text \<open>
  A handler's setters cause one render; setters queued by its effects cause a second one,
  whose effects queue nothing.
\<close>

definition commit :: "VisionPanel \<Rightarrow> VisionPanel" where
  "commit s = render (render s)"

text \<open>
  Teardown: the cleanups of the effects, among them \<open>() => stopCamera()\<close>; setters of an
  unmounted component do nothing.
\<close>

definition unmount :: "VisionPanel \<Rightarrow> VisionPanel" where
  "unmount s = (stopCamera_refs s)\<lparr>effectGen := effectGen s + 1, timeoutId := None, unmounted := True\<rparr>"

subsection \<open>Events\<close>

datatype Event =
    SelectMode AppMode
  | ClickUploadSource
  | ClickCameraSource
  | ClickActivateCamera
  | MediaGranted MediaStream
  | MediaDenied
  | VideoResized nat nat
  | ClickFlipCamera
  | ClickLiveAnalyze
  | ClickCapture
  | FileSelected Blob
  | ClickClearImage
  | ClickAnalyze
  | TimerFires
  | BlobReady nat "Blob option"
  | ServiceAnswers nat "InferenceError + VisionResult"

text \<open>
  What each event runs. A control that is not rendered, or is disabled, dispatches nothing:
  the camera controls are rendered when \<open>source === 'camera' && isStreaming\<close>, Capture and
  Analyze has \<open>disabled={isLoading || isAutoAnalyze}\<close>, the upload button has
  \<open>disabled={isLoading}\<close>. The app renders the panel in the three vision modes only, so
  choosing a speech mode unmounts it.
\<close>

definition handle :: "Event \<Rightarrow> VisionPanel \<Rightarrow> VisionPanel" where
  "handle e s =
     (case e of
        SelectMode m \<Rightarrow> (if isVisionMode m then s\<lparr>mode := m\<rparr> else unmount s)
      | ClickUploadSource \<Rightarrow> s\<lparr>source := upload, videoRef := None\<rparr>
      | ClickCameraSource \<Rightarrow>
          startCamera
            (s\<lparr>source := camera,
               videoRef := (if source s = camera then videoRef s
                            else Some \<lparr>srcObject = None, videoWidth = 0, videoHeight = 0\<rparr>)\<rparr>)
      | ClickActivateCamera \<Rightarrow>
          (if source s = camera \<and> (\<not> isStreaming s \<or> cameraError s \<noteq> None)
           then startCamera s else s)
      | MediaGranted stream \<Rightarrow> startCamera_granted stream s
      | MediaDenied \<Rightarrow> startCamera_denied s
      | VideoResized w h \<Rightarrow>
          (case videoRef s of
             None \<Rightarrow> s
           | Some v \<Rightarrow>
               (if srcObject v = None then s
                else s\<lparr>videoRef := Some (v\<lparr>videoWidth := w, videoHeight := h\<rparr>)\<rparr>))
      | ClickFlipCamera \<Rightarrow>
          (if source s = camera \<and> isStreaming s
           then s\<lparr>facingMode := (if facingMode s = environment then user else environment)\<rparr>
           else s)
      | ClickLiveAnalyze \<Rightarrow>
          (if source s = camera \<and> isStreaming s
           then s\<lparr>isAutoAnalyze := \<not> isAutoAnalyze s\<rparr> else s)
      | ClickCapture \<Rightarrow>
          (if source s = camera \<and> isStreaming s \<and> \<not> (isLoading s \<or> isAutoAnalyze s)
           then handleManualCapture s else s)
      | FileSelected f \<Rightarrow>
          (if source s = upload \<and> selectedImage s = None
           then s\<lparr>selectedImage := Some f, result := None, error := None\<rparr> else s)
      | ClickClearImage \<Rightarrow>
          (if source s = upload \<and> selectedImage s \<noteq> None
           then s\<lparr>selectedImage := None, result := None, error := None\<rparr> else s)
      | ClickAnalyze \<Rightarrow>
          (case selectedImage s of
             None \<Rightarrow> s
           | Some img \<Rightarrow>
               (if source s = upload \<and> \<not> isLoading s
                then processImage UploadButton (isAutoAnalyze s) (mode s) img s else s))
      | TimerFires \<Rightarrow>
          (case timeoutId s of
             None \<Rightarrow> s
           | Some delay \<Rightarrow> analyzeLoop (s\<lparr>timeoutId := None\<rparr>))
      | BlobReady i blob \<Rightarrow>
          (if i < length (captures s)
           then capture_settled (captures s ! i) blob
                  (s\<lparr>captures := take i (captures s) @ drop (Suc i) (captures s)\<rparr>)
           else s)
      | ServiceAnswers i answer \<Rightarrow>
          (if i < length (requests s)
           then processImage_settled (requests s ! i) answer
                  (s\<lparr>requests := take i (requests s) @ drop (Suc i) (requests s)\<rparr>)
           else s))"

text \<open>
  One event: its handler, then the commit (the renders and their effects run before the
  next event is handled), unless the panel is gone. What resolves after the teardown is
  not followed.
\<close>

definition step :: "Event \<Rightarrow> VisionPanel \<Rightarrow> VisionPanel" where
  "step e s =
     (if unmounted s then s
      else if unmounted (handle e s) then handle e s
      else commit (handle e s))"

fun run :: "Event list \<Rightarrow> VisionPanel \<Rightarrow> VisionPanel" where
  "run [] s = s"
| "run (e # es) s = run es (step e s)"

section \<open>The app (App.tsx)\<close>

text \<open>
  The speech panel as it mounts, and the \<open>catch\<close> of \<open>startRecording\<close>: \<open>getUserMedia\<close>
  rejected, the error is set and nothing else.
\<close>

definition mountSpeechPanel :: SpeechPanel where
  "mountSpeechPanel =
     \<lparr>isRecording = False, transcription = [], textInput = [], audioUrl = None,
      isPlaying = False, selectedVoice = ''Puck'', speechLoading = False,
      speechError = None\<rparr>"

definition startRecording_denied :: "SpeechPanel \<Rightarrow> SpeechPanel" where
  "startRecording_denied s =
     s\<lparr>speechError := Some ''Microphone access denied or not available.''\<rparr>"

text \<open>
  The app owns \<open>currentMode\<close> and renders the vision panel in the three vision modes and the
  speech panel in the two speech modes, each with \<open>mode={currentMode}\<close>. A panel that stays
  rendered keeps its instance and its state: the vision panel then runs its mode effect
  (\<open>step (SelectMode m)\<close>), the speech panel has no effect that depends on \<open>mode\<close>. A panel
  that is no longer rendered is torn down and the other one mounts.
\<close>

datatype Panel = VisionMounted VisionPanel | SpeechMounted SpeechPanel

record App =
  currentMode :: AppMode
  panel :: Panel

definition onModeSelect :: "AppMode \<Rightarrow> App \<Rightarrow> App" where
  "onModeSelect m a =
     (case panel a of
        VisionMounted v \<Rightarrow>
          (if isVisionMode m
           then \<lparr>currentMode = m, panel = VisionMounted (step (SelectMode m) v)\<rparr>
           else \<lparr>currentMode = m, panel = SpeechMounted mountSpeechPanel\<rparr>)
      | SpeechMounted sp \<Rightarrow>
          (if isVisionMode m
           then \<lparr>currentMode = m, panel = VisionMounted (mountVisionPanel m)\<rparr>
           else \<lparr>currentMode = m, panel = SpeechMounted sp\<rparr>))"

text \<open>The error the rendered panel shows (both panels render \<open>error\<close> when it is set).\<close>

definition displayedError :: "App \<Rightarrow> string option" where
  "displayedError a =
     (case panel a of VisionMounted v \<Rightarrow> error v | SpeechMounted sp \<Rightarrow> speechError sp)"

section \<open>Notions used by the statements\<close>

text \<open>No effect is waiting to run: the dependency values are those of the last commit.\<close>

definition committed :: "VisionPanel \<Rightarrow> bool" where
  "committed s =
     (modeDep s = mode s \<and> facingDep s = facingMode s \<and> loopDeps s = loopDepsOf s)"

text \<open>The states the panel reaches from its mount in a vision mode.\<close>

definition reachable :: "VisionPanel \<Rightarrow> bool" where
  "reachable s = (\<exists>m es. isVisionMode m \<and> s = run es (mountVisionPanel m))"

text \<open>A stream is held while one of its tracks is live.\<close>

definition held :: "MediaStream \<Rightarrow> bool" where
  "held stream = (live \<in> set stream)"

text \<open>
  Example data: a panel in gesture mode whose camera was granted one stream with one track
  and shows 1280 x 720 frames, an encoded frame, a service result, two service answers.
\<close>

definition cameraReady :: VisionPanel where
  "cameraReady =
     run [ClickCameraSource, MediaGranted [live], VideoResized 1280 720]
       (mountVisionPanel HAND_GESTURES)"

definition frame :: Blob where
  "frame = \<lparr>blobType = ''image/jpeg'', blobSize = 48213\<rparr>"

definition thumbsUp :: VisionResult where
  "thumbsUp = GestureResult ''Thumbs Up'' ''98%'' ''Approval''"

definition speechIdle :: "JSString \<Rightarrow> SpeechPanel" where
  "speechIdle t =
     \<lparr>isRecording = False, transcription = [], textInput = t,
      audioUrl = Some ''blob:previous'', isPlaying = False, selectedVoice = ''Puck'',
      speechLoading = False, speechError = Some ''Failed to convert text to speech.''\<rparr>"

text \<open>The app in speech-to-text mode after the microphone was refused.\<close>

definition microphoneRefused :: App where
  "microphoneRefused =
     \<lparr>currentMode = SPEECH_TO_TEXT,
      panel = SpeechMounted (startRecording_denied mountSpeechPanel)\<rparr>"

definition noPayload :: GenerateContentResponse where
  "noPayload = \<lparr>responseText = None, candidates = None\<rparr>"

definition emptyPayload :: GenerateContentResponse where
  "emptyPayload = \<lparr>responseText = Some [], candidates = Some []\<rparr>"

text \<open>
  The closure a caller hands on: \<open>analyzeLoop\<close> runs on only under \<open>isAutoAnalyze\<close>, the
  capture button is disabled under it, the upload button is indifferent.
\<close>

definition callerAgrees :: "Caller \<Rightarrow> bool \<Rightarrow> bool" where
  "callerAgrees c auto =
     (case c of Loop g \<Rightarrow> auto | Manual \<Rightarrow> \<not> auto | UploadButton \<Rightarrow> True)"

definition closuresAgree :: "VisionPanel \<Rightarrow> bool" where
  "closuresAgree s =
     (list_all (\<lambda>k. callerAgrees (captureCaller k) (captureAuto k)) (captures s) \<and>
      list_all (\<lambda>r. callerAgrees (requestCaller r) (requestAuto r)) (requests s))"

definition panelInv :: "VisionPanel \<Rightarrow> bool" where
  "panelInv s = (closuresAgree s \<and> (unmounted s \<or> committed s))"

text \<open>
  How old the run behind a pending capture or request is, against the number \<open>gen\<close> of the
  current effect instance: of an earlier instance (stale); of an earlier instance, or of
  the current one while nothing is loading (fresh); of no later instance (known).
\<close>

definition callerStale :: "nat \<Rightarrow> Caller \<Rightarrow> bool" where
  "callerStale gen c = (case c of Loop g \<Rightarrow> g < gen | _ \<Rightarrow> True)"

definition callerFresh :: "nat \<Rightarrow> bool \<Rightarrow> Caller \<Rightarrow> bool" where
  "callerFresh gen loading c =
     (case c of Loop g \<Rightarrow> g < gen \<or> (g = gen \<and> \<not> loading) | _ \<Rightarrow> True)"

definition callerKnown :: "nat \<Rightarrow> Caller \<Rightarrow> bool" where
  "callerKnown gen c = (case c of Loop g \<Rightarrow> g \<le> gen | _ \<Rightarrow> True)"

definition runsStale :: "VisionPanel \<Rightarrow> bool" where
  "runsStale s =
     (list_all (\<lambda>k. callerFresh (effectGen s) (isLoading s) (captureCaller k)) (captures s) \<and>
      list_all (\<lambda>r. callerStale (effectGen s) (requestCaller r)) (requests s))"

definition runsKnown :: "VisionPanel \<Rightarrow> bool" where
  "runsKnown s =
     (list_all (\<lambda>k. callerKnown (effectGen s) (captureCaller k)) (captures s) \<and>
      list_all (\<lambda>r. callerKnown (effectGen s) (requestCaller r)) (requests s))"

text \<open>What a handler leaves for the commit: the invariant is due only if no dependency changed.\<close>

definition handled :: "VisionPanel \<Rightarrow> bool" where
  "handled h = (runsKnown h \<and> (loopDeps h = loopDepsOf h \<longrightarrow> runsStale h))"

text \<open>
  More example states, all reached from \<open>cameraReady\<close>: live analysis with its first frame
  being encoded; with that frame submitted; after the first answer; stopped while the
  request is outstanding; a manual capture submitted.
\<close>

definition liveCapturing :: VisionPanel where
  "liveCapturing = run [ClickLiveAnalyze] cameraReady"

definition liveAwaiting :: VisionPanel where
  "liveAwaiting = run [ClickLiveAnalyze, BlobReady 0 (Some frame)] cameraReady"

definition liveAnswered :: VisionPanel where
  "liveAnswered =
     run [ClickLiveAnalyze, BlobReady 0 (Some frame), ServiceAnswers 0 (Inr thumbsUp)]
       cameraReady"

definition stoppedAwaiting :: VisionPanel where
  "stoppedAwaiting =
     run [ClickLiveAnalyze, BlobReady 0 (Some frame), ClickLiveAnalyze] cameraReady"

definition manualAwaiting :: VisionPanel where
  "manualAwaiting = run [ClickCapture, BlobReady 0 (Some frame)] cameraReady"

text \<open>A browser's \<open>toBlob\<close>: no blob for a canvas without pixels.\<close>

definition browserToBlob :: "nat \<Rightarrow> nat \<Rightarrow> string \<Rightarrow> rat \<Rightarrow> Blob option" where
  "browserToBlob w h ty q =
     (if w = 0 \<or> h = 0 then None else Some \<lparr>blobType = ty, blobSize = w * h\<rparr>)"

section \<open>Theorems\<close>

lemma synthesizeSpeech_emptyAudio:
  "emptyAudio response \<Longrightarrow> \<exists>e. synthesizeSpeech (Fulfilled response) = Inl e"
  unfolding emptyAudio_def audioPayload_def synthesizeSpeech_def
  by (auto split: option.splits list.splits simp: truthy_def)


subsection \<open>The service wrappers and the empty response\<close>

text \<open>
  C4, as stated, fails: on an answer without text \<open>transcribeAudio\<close> does not fail, it
  returns the placeholder sentence as the transcription.
\<close>

theorem transcribeAudio_empty_response_is_a_result:
  "emptyText noPayload \<and>
   transcribeAudio (Fulfilled ''data:audio/webm;base64,GkXf'') (Fulfilled noPayload)
     = Inr ''No transcription generated.''"
  by (simp add: emptyText_def noPayload_def truthy_def transcribeAudio_def)

text \<open>
  C4, amended: on an empty response \<open>classifyImage\<close>, \<open>detectObjects\<close>,
  \<open>detectHandGestures\<close> and \<open>synthesizeSpeech\<close> fail with an error, whatever the
  parser would do and whether or not the file could be read; \<open>transcribeAudio\<close>, once
  the recording is read, returns the text \<open>No transcription generated.\<close> as its result.
\<close>

theorem empty_response_fails_except_transcribe:
  "(emptyText response \<longrightarrow>
      classifyImage JSON_parse (Fulfilled d) (Fulfilled response) = Inl NoResponseText \<and>
      detectObjects JSON_parse (Fulfilled d) (Fulfilled response) = Inl NoResponseText \<and>
      detectHandGestures JSON_parse (Fulfilled d) (Fulfilled response) = Inl NoResponseText \<and>
      (\<exists>e. classifyImage JSON_parse imagePart (Fulfilled response) = Inl e) \<and>
      (\<exists>e. detectObjects JSON_parse imagePart (Fulfilled response) = Inl e) \<and>
      (\<exists>e. detectHandGestures JSON_parse imagePart (Fulfilled response) = Inl e) \<and>
      transcribeAudio (Fulfilled d) (Fulfilled response) = Inr ''No transcription generated.'') \<and>
   (emptyAudio response \<longrightarrow> (\<exists>e. synthesizeSpeech (Fulfilled response) = Inl e))"
proof -
  have "\<exists>e. synthesizeSpeech (Fulfilled response) = Inl e" if "emptyAudio response"
    using that by (rule synthesizeSpeech_emptyAudio)
  moreover have
    "classifyImage JSON_parse (Fulfilled d) (Fulfilled response) = Inl NoResponseText"
    "detectObjects JSON_parse (Fulfilled d) (Fulfilled response) = Inl NoResponseText"
    "detectHandGestures JSON_parse (Fulfilled d) (Fulfilled response) = Inl NoResponseText"
    "transcribeAudio (Fulfilled d) (Fulfilled response) = Inr ''No transcription generated.''"
    if "emptyText response"
    using that
    by (simp_all add: emptyText_def classifyImage_def detectObjects_def detectHandGestures_def
        transcribeAudio_def)
  moreover have
    "\<exists>e. classifyImage JSON_parse imagePart (Fulfilled response) = Inl e"
    "\<exists>e. detectObjects JSON_parse imagePart (Fulfilled response) = Inl e"
    "\<exists>e. detectHandGestures JSON_parse imagePart (Fulfilled response) = Inl e"
    if "emptyText response"
    using that
    by (cases imagePart; simp add: emptyText_def classifyImage_def detectObjects_def
        detectHandGestures_def)+
  ultimately show ?thesis by blast
qed

theorem empty_response_fails_except_transcribe_witness:
  "emptyText emptyPayload \<and> emptyAudio emptyPayload \<and>
   classifyImage (\<lambda>t. Some thumbsUp) (Fulfilled ''data:image/jpeg;base64,AAAA'') (Fulfilled emptyPayload)
     = Inl NoResponseText \<and>
   transcribeAudio (Fulfilled ''data:image/jpeg;base64,AAAA'') (Fulfilled emptyPayload)
     = Inr ''No transcription generated.'' \<and>
   (\<exists>e. synthesizeSpeech (Fulfilled emptyPayload) = Inl e)"
proof -
  have t: "emptyText emptyPayload"
    by (simp add: emptyText_def emptyPayload_def truthy_def)
  have a: "emptyAudio emptyPayload"
    by (simp add: emptyAudio_def audioPayload_def emptyPayload_def truthy_def)
  show ?thesis
    using t a
      empty_response_fails_except_transcribe
        [of emptyPayload "\<lambda>t. Some thumbsUp" "''data:image/jpeg;base64,AAAA''" Rejected]
    by blast
qed

subsection \<open>The text-to-speech trigger\<close>

lemma dropWhile_all: "list_all P xs \<Longrightarrow> dropWhile P xs = []"
  by (induction xs) simp_all

lemma trim_empty_iff: "trim s = [] \<longleftrightarrow> list_all isWhiteSpace s"
proof
  assume e: "trim s = []"
  then have "dropWhile isWhiteSpace (rev (dropWhile isWhiteSpace s)) = []"
    by (simp add: trim_def)
  then have "\<forall>x \<in> set (rev (dropWhile isWhiteSpace s)). isWhiteSpace x"
    by (simp add: dropWhile_eq_Nil_conv)
  then have "\<forall>x \<in> set (dropWhile isWhiteSpace s). isWhiteSpace x" by simp
  then have "dropWhile isWhiteSpace s = []"
    by (metis dropWhile_eq_Nil_conv dropWhile_idem)
  then show "list_all isWhiteSpace s"
    by (simp add: dropWhile_eq_Nil_conv list_all_iff)
next
  assume "list_all isWhiteSpace s"
  then show "trim s = []" by (simp add: trim_def dropWhile_all)
qed

text \<open>
  C10: with a text that is empty or white space only, \<open>handleTTS\<close> (and the button that
  calls it) changes nothing and issues no request; with any other text it issues one
  synthesis request for that text and the selected voice, and the state it has set by then
  has no audio URL and no error (and the loading flag raised; nothing else changed).
\<close>

theorem handleTTS_blank_is_noop_else_clears:
  "(list_all isWhiteSpace (textInput s) \<longrightarrow>
      handleTTS s = (s, None) \<and> clickGenerateAudio s = (s, None)) \<and>
   (\<not> list_all isWhiteSpace (textInput s) \<longrightarrow>
      snd (handleTTS s) = Some (textInput s, selectedVoice s) \<and>
      audioUrl (fst (handleTTS s)) = None \<and>
      speechError (fst (handleTTS s)) = None \<and>
      fst (handleTTS s) = s\<lparr>speechLoading := True, speechError := None, audioUrl := None\<rparr>)"
  by (simp add: handleTTS_def clickGenerateAudio_def trim_empty_iff)

theorem handleTTS_blank_is_noop_else_clears_witness:
  "list_all isWhiteSpace (textInput (speechIdle [32, 9, 160, 10])) \<and>
   handleTTS (speechIdle [32, 9, 160, 10]) = (speechIdle [32, 9, 160, 10], None) \<and>
   \<not> list_all isWhiteSpace (textInput (speechIdle [32, 72, 105])) \<and>
   snd (handleTTS (speechIdle [32, 72, 105])) = Some ([32, 72, 105], ''Puck'') \<and>
   audioUrl (fst (handleTTS (speechIdle [32, 72, 105]))) = None \<and>
   speechError (fst (handleTTS (speechIdle [32, 72, 105]))) = None"
proof -
  have b: "list_all isWhiteSpace (textInput (speechIdle [32, 9, 160, 10]))"
    by (simp add: speechIdle_def isWhiteSpace_def)
  have n: "\<not> list_all isWhiteSpace (textInput (speechIdle [32, 72, 105]))"
    by (simp add: speechIdle_def isWhiteSpace_def)
  have v: "textInput (speechIdle [32, 72, 105]) = [32, 72, 105]"
    "selectedVoice (speechIdle [32, 72, 105]) = ''Puck''"
    by (simp_all add: speechIdle_def)
  show ?thesis
    using b n v
      handleTTS_blank_is_noop_else_clears [of "speechIdle [32, 9, 160, 10]"]
      handleTTS_blank_is_noop_else_clears [of "speechIdle [32, 72, 105]"]
    by simp
qed


subsection \<open>Rendering\<close>

lemmas render_defs =
  render_def Let_def analyzeLoop_def stopCamera_refs_def stopCamera_state_def

lemmas panel_defs =
  step_def handle_def commit_def render_def Let_def analyzeLoop_def stopCamera_refs_def
  stopCamera_state_def startCamera_def startCamera_granted_def startCamera_denied_def
  loopDepsOf_def sampleFrame_def captureFrame_def analyzeLoop_reschedule_def resume_def
  processImage_def processImage_settled_def capture_settled_def handleManualCapture_def
  unmount_def isVisionMode_def mountVisionPanel_def

lemma render_committed: "committed s \<Longrightarrow> render s = s"
  by (simp add: committed_def render_def Let_def)

lemma commit_committed: "committed s \<Longrightarrow> commit s = s"
  by (simp add: commit_def render_committed)

lemma requests_render: "requests (render s) = requests s"
  by (simp add: render_defs)

lemma captures_render:
  "captures (render s) =
     (if loopDeps s \<noteq> loopDepsOf s \<and> isAutoAnalyze s \<and> isStreaming s \<and> \<not> isLoading s
      then captures s @
             [\<lparr>captureCaller = Loop (effectGen s + 1), captureMode = mode s,
               captureAuto = True,
               captureCall =
                 sampleFrame (if facingDep s \<noteq> facingMode s then stopCamera_refs s else s)\<rparr>]
      else captures s)"
  by (simp add: render_defs sampleFrame_def)

lemma render_fields:
  "result (render s) = (if modeDep s \<noteq> mode s then None else result s)"
  "error (render s) = (if modeDep s \<noteq> mode s then None else error s)"
  "isAutoAnalyze (render s) =
     (if modeDep s \<noteq> mode s \<or> (facingDep s \<noteq> facingMode s \<and> isStreaming s) then False
      else isAutoAnalyze s)"
  "isStreaming (render s) = (if facingDep s \<noteq> facingMode s then False else isStreaming s)"
  "isLoading (render s) = isLoading s"
  "mode (render s) = mode s"
  "modeDep (render s) = mode s"
  "facingMode (render s) = facingMode s"
  "facingDep (render s) = facingMode s"
  "unmounted (render s) = unmounted s"
  "source (render s) = source s"
  "loopDeps (render s) = loopDepsOf s"
  by (simp_all add: render_defs)

lemma render_device:
  "facingDep s = facingMode s \<Longrightarrow> streams (render s) = streams s"
  "facingDep s = facingMode s \<Longrightarrow> streamRef (render s) = streamRef s"
  "facingDep s = facingMode s \<Longrightarrow> videoRef (render s) = videoRef s"
  by (simp_all add: render_defs)

lemma committed_commit: "committed (commit s)"
  by (simp add: commit_def committed_def loopDepsOf_def render_fields)

lemma commit_fields:
  "result (commit s) = (if modeDep s \<noteq> mode s then None else result s)"
  "error (commit s) = (if modeDep s \<noteq> mode s then None else error s)"
  "isAutoAnalyze (commit s) =
     (if modeDep s \<noteq> mode s \<or> (facingDep s \<noteq> facingMode s \<and> isStreaming s) then False
      else isAutoAnalyze s)"
  "isLoading (commit s) = isLoading s"
  "mode (commit s) = mode s"
  "unmounted (commit s) = unmounted s"
  "requests (commit s) = requests s"
  by (simp_all add: commit_def render_fields requests_render)

lemma commit_device:
  "facingDep s = facingMode s \<Longrightarrow> streams (commit s) = streams s"
  "facingDep s = facingMode s \<Longrightarrow> streamRef (commit s) = streamRef s"
  by (simp_all add: commit_def render_device render_fields)


subsection \<open>What every reachable state satisfies\<close>

lemma list_all_remove_nth:
  "list_all P xs \<Longrightarrow> list_all P (take i xs) \<and> list_all P (drop (Suc i) xs)"
  by (auto simp: list_all_iff dest: in_set_takeD in_set_dropD)

lemma analyzeLoop_closures: "closuresAgree s \<Longrightarrow> closuresAgree (analyzeLoop s)"
  by (simp add: closuresAgree_def analyzeLoop_def callerAgrees_def)

lemma render_closures: "closuresAgree s \<Longrightarrow> closuresAgree (render s)"
  by (simp add: closuresAgree_def requests_render captures_render callerAgrees_def)

lemma commit_closures: "closuresAgree s \<Longrightarrow> closuresAgree (commit s)"
  by (simp add: commit_def render_closures)

lemma resume_closures: "closuresAgree s \<Longrightarrow> closuresAgree (resume c auto m s)"
  by (simp add: closuresAgree_def resume_def analyzeLoop_reschedule_def split: Caller.splits)

lemma processImage_closures:
  "closuresAgree s \<Longrightarrow> callerAgrees c auto \<Longrightarrow> closuresAgree (processImage c auto m img s)"
  by (simp add: processImage_def closuresAgree_def resume_def analyzeLoop_reschedule_def Let_def
      split: Caller.splits)

lemma capture_settled_closures:
  "closuresAgree s \<Longrightarrow> callerAgrees (captureCaller k) (captureAuto k) \<Longrightarrow>
   closuresAgree (capture_settled k b s)"
  by (simp add: capture_settled_def processImage_closures resume_closures split: option.splits)

lemma processImage_settled_closures:
  "closuresAgree s \<Longrightarrow> closuresAgree (processImage_settled r a s)"
  unfolding processImage_settled_def Let_def
  by (rule resume_closures) (simp add: closuresAgree_def split: sum.splits)

lemma handle_closures:
  assumes a: "closuresAgree s"
  shows "closuresAgree (handle e s)"
proof (cases e)
  case (BlobReady i b)
  show ?thesis
  proof (cases "i < length (captures s)")
    case True
    from a True have "callerAgrees (captureCaller (captures s ! i)) (captureAuto (captures s ! i))"
      by (simp add: closuresAgree_def list_all_length)
    moreover from a have
      "closuresAgree (s\<lparr>captures := take i (captures s) @ drop (Suc i) (captures s)\<rparr>)"
      by (simp add: closuresAgree_def list_all_remove_nth)
    ultimately show ?thesis using BlobReady True
      by (simp add: handle_def capture_settled_closures)
  next
    case False
    then show ?thesis using a BlobReady by (simp add: handle_def)
  qed
next
  case (ServiceAnswers i ans)
  from a have "closuresAgree (s\<lparr>requests := take i (requests s) @ drop (Suc i) (requests s)\<rparr>)"
    by (simp add: closuresAgree_def list_all_remove_nth)
  then show ?thesis using a ServiceAnswers
    by (simp add: handle_def processImage_settled_closures)
next
  case ClickAnalyze
  show ?thesis using a ClickAnalyze
    by (simp add: handle_def processImage_closures callerAgrees_def split: option.splits)
next
  case TimerFires
  from a have "closuresAgree (s\<lparr>timeoutId := None\<rparr>)" by (simp add: closuresAgree_def)
  then show ?thesis using a TimerFires
    by (simp add: handle_def analyzeLoop_closures split: option.splits)
next
  case (SelectMode m)
  then show ?thesis using a
    by (simp add: handle_def closuresAgree_def unmount_def stopCamera_refs_def)
next
  case ClickCapture
  then show ?thesis using a
    by (simp add: handle_def closuresAgree_def callerAgrees_def handleManualCapture_def)
next
  case (MediaGranted st)
  then show ?thesis using a
    by (simp add: handle_def closuresAgree_def startCamera_granted_def)
next
  case MediaDenied
  then show ?thesis using a
    by (simp add: handle_def closuresAgree_def startCamera_denied_def)
next
  case (VideoResized w h)
  then show ?thesis using a
    by (simp add: handle_def closuresAgree_def split: option.splits)
qed (use a in \<open>simp_all add: handle_def closuresAgree_def startCamera_def\<close>)

lemma step_inv: "panelInv s \<Longrightarrow> panelInv (step e s)"
  by (simp add: panelInv_def step_def handle_closures commit_closures committed_commit)

lemma run_inv: "panelInv s \<Longrightarrow> panelInv (run es s)"
  by (induction es arbitrary: s) (simp_all add: step_inv)

lemma mount_inv: "panelInv (mountVisionPanel m)"
  by (simp add: panelInv_def closuresAgree_def committed_def loopDepsOf_def mountVisionPanel_def)

lemma reachable_inv: "reachable s \<Longrightarrow> panelInv s"
  by (auto simp: reachable_def run_inv mount_inv)

lemma reachable_committed: "reachable s \<Longrightarrow> \<not> unmounted s \<Longrightarrow> committed s"
  using reachable_inv by (auto simp: panelInv_def)

lemma run_append: "run (es @ fs) s = run fs (run es s)"
  by (induction es arbitrary: s) simp_all

lemma reachable_run: "reachable s \<Longrightarrow> reachable (run es s)"
proof -
  assume "reachable s"
  then obtain m fs where "isVisionMode m" "s = run fs (mountVisionPanel m)"
    by (auto simp: reachable_def)
  then have "isVisionMode m \<and> run es s = run (fs @ es) (mountVisionPanel m)"
    by (simp add: run_append)
  then show ?thesis unfolding reachable_def by blast
qed

lemma reachable_mount: "isVisionMode m \<Longrightarrow> reachable (mountVisionPanel m)"
proof -
  assume "isVisionMode m"
  then have "isVisionMode m \<and> mountVisionPanel m = run [] (mountVisionPanel m)" by simp
  then show ?thesis unfolding reachable_def by blast
qed

lemma loop_request_auto:
  "reachable s \<Longrightarrow> i < length (requests s) \<Longrightarrow> requestCaller (requests s ! i) = Loop g \<Longrightarrow>
   requestAuto (requests s ! i)"
  using reachable_inv [of s]
  by (auto simp add: panelInv_def closuresAgree_def list_all_length callerAgrees_def)

lemma manual_request_auto:
  "reachable s \<Longrightarrow> i < length (requests s) \<Longrightarrow> requestCaller (requests s ! i) = Manual \<Longrightarrow>
   \<not> requestAuto (requests s ! i)"
  using reachable_inv [of s]
  by (auto simp add: panelInv_def closuresAgree_def list_all_length callerAgrees_def)

lemma loop_capture_auto:
  "reachable s \<Longrightarrow> j < length (captures s) \<Longrightarrow> captureCaller (captures s ! j) = Loop g \<Longrightarrow>
   captureAuto (captures s ! j)"
  using reachable_inv [of s]
  by (auto simp add: panelInv_def closuresAgree_def list_all_length callerAgrees_def)

subsection \<open>The example states, computed\<close>

lemma cameraReady_value:
  "cameraReady =
     \<lparr>mode = HAND_GESTURES, source = camera, selectedImage = None, isStreaming = True,
      isAutoAnalyze = False, cameraError = None, facingMode = environment, isLoading = False,
      result = None, error = None, streamRef = Some 0,
      videoRef = Some \<lparr>srcObject = Some 0, videoWidth = 1280, videoHeight = 720\<rparr>,
      streams = [[live]], pendingMedia = 0, effectGen = 1, timeoutId = None,
      modeDep = HAND_GESTURES, facingDep = environment,
      loopDeps = (False, True, False, HAND_GESTURES), captures = [], requests = [],
      unmounted = False\<rparr>"
  by (simp add: cameraReady_def panel_defs)

lemma liveCapturing_value:
  "liveCapturing =
     \<lparr>mode = HAND_GESTURES, source = camera, selectedImage = None, isStreaming = True,
      isAutoAnalyze = True, cameraError = None, facingMode = environment, isLoading = False,
      result = None, error = None, streamRef = Some 0,
      videoRef = Some \<lparr>srcObject = Some 0, videoWidth = 1280, videoHeight = 720\<rparr>,
      streams = [[live]], pendingMedia = 0, effectGen = 2, timeoutId = None,
      modeDep = HAND_GESTURES, facingDep = environment,
      loopDeps = (True, True, False, HAND_GESTURES),
      captures =
        [\<lparr>captureCaller = Loop 2, captureMode = HAND_GESTURES, captureAuto = True,
          captureCall = Some (ToBlob 1280 720 ''image/jpeg'' (8 / 10))\<rparr>],
      requests = [], unmounted = False\<rparr>"
  by (simp add: liveCapturing_def cameraReady_value panel_defs)

lemma liveAwaiting_value:
  "liveAwaiting =
     \<lparr>mode = HAND_GESTURES, source = camera, selectedImage = None, isStreaming = True,
      isAutoAnalyze = True, cameraError = None, facingMode = environment, isLoading = True,
      result = None, error = None, streamRef = Some 0,
      videoRef = Some \<lparr>srcObject = Some 0, videoWidth = 1280, videoHeight = 720\<rparr>,
      streams = [[live]], pendingMedia = 0, effectGen = 3, timeoutId = Some 200,
      modeDep = HAND_GESTURES, facingDep = environment,
      loopDeps = (True, True, True, HAND_GESTURES), captures = [],
      requests =
        [\<lparr>requestCaller = Loop 2, requestMode = HAND_GESTURES, requestAuto = True,
          requestImage = frame\<rparr>],
      unmounted = False\<rparr>"
  by (simp add: liveAwaiting_def cameraReady_value panel_defs)

lemma liveAnswered_value:
  "liveAnswered =
     \<lparr>mode = HAND_GESTURES, source = camera, selectedImage = None, isStreaming = True,
      isAutoAnalyze = True, cameraError = None, facingMode = environment, isLoading = False,
      result = Some thumbsUp, error = None, streamRef = Some 0,
      videoRef = Some \<lparr>srcObject = Some 0, videoWidth = 1280, videoHeight = 720\<rparr>,
      streams = [[live]], pendingMedia = 0, effectGen = 4, timeoutId = None,
      modeDep = HAND_GESTURES, facingDep = environment,
      loopDeps = (True, True, False, HAND_GESTURES),
      captures =
        [\<lparr>captureCaller = Loop 4, captureMode = HAND_GESTURES, captureAuto = True,
          captureCall = Some (ToBlob 1280 720 ''image/jpeg'' (8 / 10))\<rparr>],
      requests = [], unmounted = False\<rparr>"
  by (simp add: liveAnswered_def cameraReady_value panel_defs)


lemma manualAwaiting_value:
  "manualAwaiting =
     \<lparr>mode = HAND_GESTURES, source = camera, selectedImage = None, isStreaming = True,
      isAutoAnalyze = False, cameraError = None, facingMode = environment, isLoading = True,
      result = None, error = None, streamRef = Some 0,
      videoRef = Some \<lparr>srcObject = Some 0, videoWidth = 1280, videoHeight = 720\<rparr>,
      streams = [[live]], pendingMedia = 0, effectGen = 2, timeoutId = None,
      modeDep = HAND_GESTURES, facingDep = environment,
      loopDeps = (False, True, True, HAND_GESTURES), captures = [],
      requests =
        [\<lparr>requestCaller = Manual, requestMode = HAND_GESTURES, requestAuto = False,
          requestImage = frame\<rparr>],
      unmounted = False\<rparr>"
  by (simp add: manualAwaiting_def cameraReady_value panel_defs)

lemma reachable_cameraReady: "reachable cameraReady"
  unfolding cameraReady_def
  by (rule reachable_run) (simp add: reachable_mount isVisionMode_def)

lemma reachable_examples:
  "reachable liveCapturing" "reachable liveAwaiting" "reachable liveAnswered"
  "reachable stoppedAwaiting" "reachable manualAwaiting"
  unfolding liveCapturing_def liveAwaiting_def liveAnswered_def stoppedAwaiting_def
    manualAwaiting_def
  by (rule reachable_run, rule reachable_cameraReady)+

subsection \<open>Handlers, field by field\<close>

lemma processImage_settled_fields:
  "result (processImage_settled r a s) = (case a of Inr d \<Rightarrow> Some d | Inl _ \<Rightarrow> result s)"
  "error (processImage_settled r a s) =
     (case a of Inr _ \<Rightarrow> error s
      | Inl _ \<Rightarrow> (if requestAuto r then error s else Some ''Failed to process image.''))"
  "isLoading (processImage_settled r a s) = False"
  "mode (processImage_settled r a s) = mode s"
  "modeDep (processImage_settled r a s) = modeDep s"
  "facingMode (processImage_settled r a s) = facingMode s"
  "facingDep (processImage_settled r a s) = facingDep s"
  "isAutoAnalyze (processImage_settled r a s) = isAutoAnalyze s"
  "isStreaming (processImage_settled r a s) = isStreaming s"
  "unmounted (processImage_settled r a s) = unmounted s"
  "captures (processImage_settled r a s) = captures s"
  "requests (processImage_settled r a s) = requests s"
  by (simp_all add: processImage_settled_def resume_def analyzeLoop_reschedule_def Let_def
      split: sum.splits Caller.splits)

lemma capture_settled_frame:
  "captureCall k \<noteq> None \<Longrightarrow>
   capture_settled k (Some img) s =
     processImage (captureCaller k) (captureAuto k) (captureMode k) img s"
  by (auto simp add: capture_settled_def)

lemma processImage_fields:
  "result (processImage c auto m img s) = (if auto then result s else None)"
  "error (processImage c auto m img s) = None"
  "mode (processImage c auto m img s) = mode s"
  "modeDep (processImage c auto m img s) = modeDep s"
  "unmounted (processImage c auto m img s) = unmounted s"
  by (simp_all add: processImage_def resume_def analyzeLoop_reschedule_def Let_def
      split: Caller.splits)

lemma capture_settled_fields:
  "mode (capture_settled k b s) = mode s"
  "modeDep (capture_settled k b s) = modeDep s"
  "unmounted (capture_settled k b s) = unmounted s"
  by (simp_all add: capture_settled_def processImage_def resume_def analyzeLoop_reschedule_def
      Let_def split: option.splits Caller.splits)

lemma step_ServiceAnswers:
  "\<not> unmounted s \<Longrightarrow> i < length (requests s) \<Longrightarrow>
   step (ServiceAnswers i a) s =
     commit (processImage_settled (requests s ! i) a
       (s\<lparr>requests := take i (requests s) @ drop (Suc i) (requests s)\<rparr>))"
  by (simp add: step_def handle_def processImage_settled_fields)

lemma step_BlobReady:
  "\<not> unmounted s \<Longrightarrow> j < length (captures s) \<Longrightarrow>
   step (BlobReady j b) s =
     commit (capture_settled (captures s ! j) b
       (s\<lparr>captures := take j (captures s) @ drop (Suc j) (captures s)\<rparr>))"
  by (simp add: step_def handle_def capture_settled_fields)

lemma stopCamera_refs_released:
  "streamRef s = Some i \<Longrightarrow> i < length (streams s) \<Longrightarrow>
   streamRef (stopCamera_refs s) = None \<and> \<not> held (streams (stopCamera_refs s) ! i)"
  by (auto simp add: stopCamera_refs_def held_def)

lemma stopCamera_refs_none_held:
  assumes "streamRef s = Some i" "i < length (streams s)"
    and only: "\<forall>j < length (streams s). held (streams s ! j) \<longrightarrow> j = i"
  shows "filter held (streams (stopCamera_refs s)) = []"
proof -
  have "\<not> held (streams (stopCamera_refs s) ! j)" if "j < length (streams (stopCamera_refs s))" for j
  proof (cases "j = i")
    case True
    then show ?thesis using assms stopCamera_refs_released by blast
  next
    case False
    with that assms have "streams (stopCamera_refs s) ! j = streams s ! j" "j < length (streams s)"
      by (simp_all add: stopCamera_refs_def)
    with only False show ?thesis by auto
  qed
  then show ?thesis
    by (auto simp add: filter_empty_conv in_set_conv_nth)
qed

lemma captureFrame_resolved_video:
  "captureFrame_resolved toBlob (captureFrame (Some v) True True) =
     toBlob (videoWidth v) (videoHeight v) ''image/jpeg'' (8 / 10)"
  by (simp add: captureFrame_def captureFrame_resolved_def)

lemma sampleFrame_stopCamera:
  "sampleFrame (stopCamera s) = None \<or>
   sampleFrame (stopCamera s) = Some (ToBlob 0 0 ''image/jpeg'' (8 / 10))"
  by (simp add: captureFrame_def sampleFrame_def stopCamera_def
      stopCamera_refs_def stopCamera_state_def split: option.splits)

subsection \<open>The run that awaits an answer is never the current one\<close>

lemma fresh_known: "callerFresh gen l c \<Longrightarrow> callerKnown gen c"
  by (auto simp: callerFresh_def callerKnown_def split: Caller.splits)

lemma stale_known: "callerStale gen c \<Longrightarrow> callerKnown gen c"
  by (auto simp: callerStale_def callerKnown_def split: Caller.splits)

lemma known_fresh_Suc: "callerKnown gen c \<Longrightarrow> callerFresh (Suc gen) l c"
  by (auto simp: callerFresh_def callerKnown_def split: Caller.splits)

lemma known_stale_Suc: "callerKnown gen c \<Longrightarrow> callerStale (Suc gen) c"
  by (auto simp: callerStale_def callerKnown_def split: Caller.splits)

lemma fresh_loading_stale: "callerFresh gen True c \<Longrightarrow> callerStale gen c"
  by (auto simp: callerFresh_def callerStale_def split: Caller.splits)

lemma runsStale_Known: "runsStale s \<Longrightarrow> runsKnown s"
  by (auto simp: runsStale_def runsKnown_def list_all_iff intro: fresh_known stale_known)

lemma runsStale_handled: "runsStale s \<Longrightarrow> handled s"
  by (simp add: handled_def runsStale_Known)

lemma effectGen_render:
  "effectGen (render s) = (if loopDeps s \<noteq> loopDepsOf s then effectGen s + 1 else effectGen s)"
  by (simp add: render_defs)

lemma render_runs:
  assumes h: "handled s"
  shows "runsStale (render s)"
proof (cases "loopDeps s = loopDepsOf s")
  case True
  with h have "runsStale s" by (simp add: handled_def)
  with True show ?thesis
    by (simp add: runsStale_def effectGen_render captures_render requests_render render_fields)
next
  case False
  from h have "list_all (\<lambda>k. callerFresh (Suc (effectGen s)) (isLoading s) (captureCaller k)) (captures s)"
    "list_all (\<lambda>r. callerStale (Suc (effectGen s)) (requestCaller r)) (requests s)"
    by (auto simp: handled_def runsKnown_def list_all_iff intro: known_fresh_Suc known_stale_Suc)
  with False show ?thesis
    by (auto simp add: runsStale_def effectGen_render captures_render requests_render
        render_fields callerFresh_def)
qed

lemma commit_runs: "handled s \<Longrightarrow> runsStale (commit s)"
  by (simp add: commit_def render_runs runsStale_handled)

lemma loading_of_deps:
  "loopDeps h = loopDepsOf s \<Longrightarrow> loopDeps h = loopDepsOf h \<Longrightarrow> isLoading h = isLoading s"
  by (simp add: loopDepsOf_def)

lemma remove_nth_all: "list_all P xs \<Longrightarrow> list_all P (take i xs @ drop (Suc i) xs)"
  by (auto simp: list_all_iff dest: in_set_takeD in_set_dropD)

lemma resume_runs:
  "effectGen (resume c a m s) = effectGen s"
  "isLoading (resume c a m s) = isLoading s"
  "captures (resume c a m s) = captures s"
  "requests (resume c a m s) = requests s"
  "loopDeps (resume c a m s) = loopDeps s"
  "loopDepsOf (resume c a m s) = loopDepsOf s"
  by (simp_all add: resume_def analyzeLoop_reschedule_def loopDepsOf_def split: Caller.splits)

lemma resume_handled: "runsStale s \<Longrightarrow> handled (resume c a m s)"
  by (rule runsStale_handled) (simp add: runsStale_def resume_runs)

text \<open>Raising or clearing the busy flag, given the deps were committed.\<close>

lemma processImage_handled:
  assumes r: "runsStale s" and c: "loopDeps s = loopDepsOf s"
    and k: "callerFresh (effectGen s) (isLoading s) caller"
  shows "handled (processImage caller auto m img s)"
proof (cases "isVisionMode m")
  case True
  let ?h = "processImage caller auto m img s"
  let ?q = "\<lparr>requestCaller = caller, requestMode = m, requestAuto = auto, requestImage = img\<rparr>"
  have f: "effectGen ?h = effectGen s" "captures ?h = captures s"
    "requests ?h = requests s @ [?q]" "isLoading ?h = True" "loopDeps ?h = loopDeps s"
    using True by (simp_all add: processImage_def Let_def)
  from r have "runsKnown s" by (rule runsStale_Known)
  with k have 1: "runsKnown ?h"
    by (simp add: runsKnown_def f fresh_known)
  have 2: "runsStale ?h" if "loopDeps ?h = loopDepsOf ?h"
  proof -
    from that c have l: "isLoading s = True"
      using loading_of_deps [of ?h s] by (simp add: f)
    with k have "callerStale (effectGen s) caller" by (simp add: fresh_loading_stale)
    with r l show ?thesis by (simp add: runsStale_def f)
  qed
  from 1 2 show ?thesis by (simp add: handled_def)
next
  case False
  let ?h = "processImage caller auto m img s"
  have f: "effectGen ?h = effectGen s" "captures ?h = captures s"
    "requests ?h = requests s" "isLoading ?h = False" "loopDeps ?h = loopDeps s"
    using False by (simp_all add: processImage_def Let_def resume_runs)
  from r have 1: "runsKnown ?h"
    using runsStale_Known [of s] by (simp add: runsKnown_def f)
  have 2: "runsStale ?h" if "loopDeps ?h = loopDepsOf ?h"
  proof -
    from that c have l: "isLoading s = False"
      using loading_of_deps [of ?h s] by (simp add: f)
    with r show ?thesis by (simp add: runsStale_def f)
  qed
  from 1 2 show ?thesis by (simp add: handled_def)
qed

lemma answered_handled:
  assumes c: "loopDeps s = loopDepsOf s" and r: "runsStale s"
  shows "handled (processImage_settled q a s)"
proof -
  let ?h = "processImage_settled q a s"
  have f: "effectGen ?h = effectGen s" "captures ?h = captures s"
    "requests ?h = requests s" "isLoading ?h = False" "loopDeps ?h = loopDeps s"
    by (simp_all add: processImage_settled_def Let_def resume_runs split: sum.splits)
  from r have 1: "runsKnown ?h"
    using runsStale_Known [of s] by (simp add: runsKnown_def f)
  have 2: "runsStale ?h" if "loopDeps ?h = loopDepsOf ?h"
  proof -
    from that c have "isLoading s = False"
      using loading_of_deps [of ?h s] by (simp add: f)
    with r show ?thesis by (simp add: runsStale_def f)
  qed
  from 1 2 show ?thesis by (simp add: handled_def)
qed

lemma capture_settled_handled:
  assumes r: "runsStale s" and c: "loopDeps s = loopDepsOf s"
    and k: "callerFresh (effectGen s) (isLoading s) (captureCaller k)"
  shows "handled (capture_settled k b s)"
  using assms
  by (simp add: capture_settled_def processImage_handled resume_handled split: option.splits)

lemma fresh_simps:
  "callerFresh gen False (Loop gen)" "callerFresh gen l Manual" "callerFresh gen l UploadButton"
  by (simp_all add: callerFresh_def)

lemma analyzeLoop_runs: "runsStale s \<Longrightarrow> runsStale (analyzeLoop s)"
  by (auto simp add: runsStale_def analyzeLoop_def fresh_simps)

lemma handle_handled:
  assumes c: "committed s" and r: "runsStale s"
  shows "handled (handle e s)"
proof (cases e)
  case (BlobReady i b)
  show ?thesis
  proof (cases "i < length (captures s)")
    case True
    let ?s = "s\<lparr>captures := take i (captures s) @ drop (Suc i) (captures s)\<rparr>"
    from r True have "callerFresh (effectGen s) (isLoading s) (captureCaller (captures s ! i))"
      by (simp add: runsStale_def list_all_length)
    moreover from r have "runsStale ?s"
      by (simp add: runsStale_def remove_nth_all del: list_all_append)
    moreover from c have "loopDeps ?s = loopDepsOf ?s"
      by (simp add: committed_def loopDepsOf_def)
    ultimately have "handled (capture_settled (captures s ! i) b ?s)"
      using capture_settled_handled [of ?s "captures s ! i" b] by simp
    with BlobReady True show ?thesis by (simp add: handle_def)
  next
    case False
    with BlobReady r show ?thesis by (simp add: handle_def runsStale_handled)
  qed
next
  case (ServiceAnswers i a)
  show ?thesis
  proof (cases "i < length (requests s)")
    case True
    let ?s = "s\<lparr>requests := take i (requests s) @ drop (Suc i) (requests s)\<rparr>"
    from r have "runsStale ?s"
      by (simp add: runsStale_def remove_nth_all del: list_all_append)
    moreover from c have "loopDeps ?s = loopDepsOf ?s"
      by (simp add: committed_def loopDepsOf_def)
    ultimately have "handled (processImage_settled (requests s ! i) a ?s)"
      by (simp add: answered_handled)
    with ServiceAnswers True show ?thesis by (simp add: handle_def)
  next
    case False
    with ServiceAnswers r show ?thesis by (simp add: handle_def runsStale_handled)
  qed
next
  case ClickAnalyze
  from c have d: "loopDeps s = loopDepsOf s" by (simp add: committed_def)
  have "handled (processImage UploadButton (isAutoAnalyze s) (mode s) img s)" for img
    using r d by (rule processImage_handled) (simp add: fresh_simps)
  with ClickAnalyze r show ?thesis
    by (simp add: handle_def runsStale_handled split: option.splits)
next
  case TimerFires
  from r have "runsStale (s\<lparr>timeoutId := None\<rparr>)" by (simp add: runsStale_def)
  then have "runsStale (analyzeLoop (s\<lparr>timeoutId := None\<rparr>))" by (rule analyzeLoop_runs)
  with TimerFires r show ?thesis
    by (simp add: handle_def runsStale_handled split: option.splits)
next
  case (SelectMode m)
  from r have "runsKnown s" by (rule runsStale_Known)
  then have "runsStale (unmount s)"
    by (auto simp add: runsStale_def runsKnown_def unmount_def stopCamera_refs_def list_all_iff
        intro: known_fresh_Suc known_stale_Suc)
  moreover from r have "runsStale (s\<lparr>mode := m\<rparr>)" by (simp add: runsStale_def)
  ultimately show ?thesis using SelectMode
    by (simp add: handle_def runsStale_handled)
next
  case ClickCapture
  with r show ?thesis
    by (auto intro!: runsStale_handled
        simp add: handle_def runsStale_def handleManualCapture_def fresh_simps)
next
  case (MediaGranted st)
  with r show ?thesis
    by (auto intro!: runsStale_handled simp add: handle_def runsStale_def startCamera_granted_def)
next
  case MediaDenied
  with r show ?thesis
    by (auto intro!: runsStale_handled simp add: handle_def runsStale_def startCamera_denied_def)
next
  case (VideoResized w h)
  with r show ?thesis
    by (auto intro!: runsStale_handled simp add: handle_def runsStale_def split: option.splits)
next
  case ClickUploadSource
  with r show ?thesis
    by (auto intro!: runsStale_handled simp add: handle_def runsStale_def)
next
  case ClickCameraSource
  with r show ?thesis
    by (auto intro!: runsStale_handled simp add: handle_def runsStale_def startCamera_def)
next
  case ClickActivateCamera
  with r show ?thesis
    by (auto intro!: runsStale_handled simp add: handle_def runsStale_def startCamera_def)
next
  case ClickFlipCamera
  with r show ?thesis
    by (auto intro!: runsStale_handled simp add: handle_def runsStale_def)
next
  case ClickLiveAnalyze
  with r show ?thesis
    by (auto intro!: runsStale_handled simp add: handle_def runsStale_def)
next
  case (FileSelected f)
  with r show ?thesis
    by (auto intro!: runsStale_handled simp add: handle_def runsStale_def)
next
  case ClickClearImage
  with r show ?thesis
    by (auto intro!: runsStale_handled simp add: handle_def runsStale_def)
qed

lemma unmounted_handle_runs:
  "runsStale s \<Longrightarrow> unmounted (handle e s) \<Longrightarrow> \<not> unmounted s \<Longrightarrow> handle e s = unmount s"
  by (cases e)
    (auto simp add: handle_def startCamera_def startCamera_granted_def startCamera_denied_def
      handleManualCapture_def processImage_fields processImage_settled_fields
      capture_settled_fields analyzeLoop_def split: option.splits if_splits)


lemma unmount_runs: "runsStale s \<Longrightarrow> runsStale (unmount s)"
proof -
  assume "runsStale s"
  then have "runsKnown s" by (rule runsStale_Known)
  then show ?thesis
    by (auto simp add: runsStale_def runsKnown_def unmount_def stopCamera_refs_def list_all_iff
        intro: known_fresh_Suc known_stale_Suc)
qed

lemma step_runs:
  assumes r: "runsStale s" and c: "unmounted s \<or> committed s"
  shows "runsStale (step e s)"
proof (cases "unmounted s")
  case True
  with r show ?thesis by (simp add: step_def)
next
  case False
  with c have cs: "committed s" by simp
  show ?thesis
  proof (cases "unmounted (handle e s)")
    case True
    with r False have "handle e s = unmount s" by (simp add: unmounted_handle_runs)
    with r True False show ?thesis by (simp add: step_def unmount_runs)
  next
    case u: False
    from cs r have "handled (handle e s)" by (rule handle_handled)
    then have "runsStale (commit (handle e s))" by (rule commit_runs)
    with False u show ?thesis by (simp add: step_def)
  qed
qed

lemma run_runs: "panelInv s \<Longrightarrow> runsStale s \<Longrightarrow> runsStale (run es s)"
proof (induction es arbitrary: s)
  case Nil
  then show ?case by simp
next
  case (Cons e es)
  from Cons.prems have "runsStale (step e s)" by (simp add: step_runs panelInv_def)
  moreover from Cons.prems have "panelInv (step e s)" by (simp add: step_inv)
  ultimately show ?case using Cons.IH by simp
qed

lemma reachable_runs: "reachable s \<Longrightarrow> runsStale s"
proof -
  assume "reachable s"
  then obtain m es where s: "s = run es (mountVisionPanel m)" by (auto simp: reachable_def)
  have "runsStale (mountVisionPanel m)" by (simp add: runsStale_def mountVisionPanel_def)
  then show ?thesis unfolding s by (intro run_runs mount_inv)
qed

lemma loop_request_stale:
  "reachable s \<Longrightarrow> i < length (requests s) \<Longrightarrow> requestCaller (requests s ! i) = Loop g \<Longrightarrow>
   g < effectGen s"
  using reachable_runs [of s]
  by (auto simp add: runsStale_def list_all_length callerStale_def)

lemma commit_once:
  assumes "modeDep s = mode s" "facingDep s = facingMode s"
  shows "commit s = render s"
proof -
  from assms have "committed (render s)"
    by (simp add: committed_def render_fields loopDepsOf_def)
  then show ?thesis by (simp add: commit_def render_committed)
qed

lemma timeoutId_render:
  "timeoutId (render s) =
     (if loopDeps s \<noteq> loopDepsOf s
      then (if isAutoAnalyze s \<and> isStreaming s \<and> isLoading s then Some 200 else None)
      else timeoutId s)"
  by (simp add: render_defs)

subsection \<open>The claims about the vision panel\<close>

text \<open>
  C1 asks that no execution of the loop has two requests in flight. The busy flag is raised
  only by \<open>processImage\<close>, after \<open>await captureFrame()\<close>, and nothing is checked again
  between that await and the call. Live analysis switched on, off and on again while the
  first frame is still being encoded leaves two runs of \<open>analyzeLoop\<close> awaiting a frame;
  each submits its frame, and two requests are in flight. So are two after a manual
  capture and the switching on of live analysis, both while the manual frame is encoded;
  and after one switch of the mode while a frame of the loop is being encoded: the effect
  of the render with the new mode still sees \<open>isAutoAnalyze\<close> and starts a capture of
  its own before the queued \<open>setIsAutoAnalyze(false)\<close> takes effect.
\<close>

theorem restart_during_capture_puts_two_requests_in_flight:
  "map requestCaller
     (requests
       (run [ClickLiveAnalyze, ClickLiveAnalyze, ClickLiveAnalyze,
             BlobReady 0 (Some frame), BlobReady 0 (Some frame)] cameraReady))
     = [Loop 2, Loop 4] \<and>
   map requestCaller
     (requests
       (run [ClickCapture, ClickLiveAnalyze,
             BlobReady 0 (Some frame), BlobReady 0 (Some frame)] cameraReady))
     = [Manual, Loop 2] \<and>
   length (captures liveAnswered) = 1 \<and>
   map requestMode
     (requests
       (run [SelectMode CLASSIFICATION,
             BlobReady 0 (Some frame), BlobReady 0 (Some frame)] liveAnswered))
     = [HAND_GESTURES, CLASSIFICATION]"
  by (simp add: cameraReady_value liveAnswered_value panel_defs)




text \<open>
  C3, as stated, fails: a switch between two vision modes keeps the camera. After it the
  stream the panel acquired is still in \<open>streamRef\<close> and its track is still live.
\<close>

theorem mode_switch_keeps_the_stream:
  "mode (step (SelectMode CLASSIFICATION) cameraReady) = CLASSIFICATION \<and>
   streamRef (step (SelectMode CLASSIFICATION) cameraReady) = Some 0 \<and>
   held (streams (step (SelectMode CLASSIFICATION) cameraReady) ! 0)"
  by (simp add: cameraReady_value panel_defs held_def)

text \<open>
  C3, amended: \<open>stopCamera\<close> (explicit stop) and the teardown of the panel (which choosing
  a speech mode causes) stop every track of the stream held in \<open>streamRef\<close> and clear the
  ref, and when that stream was the only one with a live track, no stream is held
  afterwards. A switch to another vision mode leaves the ref and every stream as they are.
\<close>

theorem stream_released_on_stop_and_teardown:
  "streamRef s = Some i \<and> i < length (streams s) \<longrightarrow>
     streamRef (stopCamera s) = None \<and> \<not> held (streams (stopCamera s) ! i) \<and>
     streamRef (unmount s) = None \<and> \<not> held (streams (unmount s) ! i) \<and>
     ((\<forall>j < length (streams s). held (streams s ! j) \<longrightarrow> j = i) \<longrightarrow>
        filter held (streams (stopCamera s)) = [] \<and> filter held (streams (unmount s)) = []) \<and>
     (\<not> unmounted s \<and> \<not> isVisionMode m \<longrightarrow> step (SelectMode m) s = unmount s) \<and>
     (reachable s \<and> \<not> unmounted s \<and> isVisionMode m \<longrightarrow>
        streamRef (step (SelectMode m) s) = Some i \<and>
        streams (step (SelectMode m) s) = streams s)"
proof (intro impI)
  assume h: "streamRef s = Some i \<and> i < length (streams s)"
  have st: "streams (stopCamera s) = streams (stopCamera_refs s)"
    "streamRef (stopCamera s) = streamRef (stopCamera_refs s)"
    "streams (unmount s) = streams (stopCamera_refs s)"
    "streamRef (unmount s) = streamRef (stopCamera_refs s)"
    by (simp_all add: stopCamera_def stopCamera_state_def unmount_def)
  have a: "streamRef (stopCamera_refs s) = None \<and> \<not> held (streams (stopCamera_refs s) ! i)"
    using h stopCamera_refs_released by blast
  have b: "filter held (streams (stopCamera_refs s)) = []"
    if "\<forall>j < length (streams s). held (streams s ! j) \<longrightarrow> j = i"
    using h that stopCamera_refs_none_held by blast
  have c: "step (SelectMode m) s = unmount s" if "\<not> unmounted s \<and> \<not> isVisionMode m"
    using that by (simp add: step_def handle_def unmount_def)
  have d: "streamRef (step (SelectMode m) s) = Some i \<and> streams (step (SelectMode m) s) = streams s"
    if "reachable s \<and> \<not> unmounted s \<and> isVisionMode m"
  proof -
    from that have "committed s" by (simp add: reachable_committed)
    with that h show ?thesis
      by (simp add: step_def handle_def commit_device committed_def)
  qed
  show "streamRef (stopCamera s) = None \<and> \<not> held (streams (stopCamera s) ! i) \<and>
     streamRef (unmount s) = None \<and> \<not> held (streams (unmount s) ! i) \<and>
     ((\<forall>j < length (streams s). held (streams s ! j) \<longrightarrow> j = i) \<longrightarrow>
        filter held (streams (stopCamera s)) = [] \<and> filter held (streams (unmount s)) = []) \<and>
     (\<not> unmounted s \<and> \<not> isVisionMode m \<longrightarrow> step (SelectMode m) s = unmount s) \<and>
     (reachable s \<and> \<not> unmounted s \<and> isVisionMode m \<longrightarrow>
        streamRef (step (SelectMode m) s) = Some i \<and>
        streams (step (SelectMode m) s) = streams s)"
    using a b c d by (simp add: st)
qed

theorem stream_released_on_stop_and_teardown_witness:
  "streamRef cameraReady = Some 0 \<and> 0 < length (streams cameraReady) \<and>
   held (streams cameraReady ! 0) \<and> filter held (streams cameraReady) = [[live]] \<and>
   reachable cameraReady \<and> \<not> unmounted cameraReady \<and>
   \<not> isVisionMode SPEECH_TO_TEXT \<and> isVisionMode OBJECT_DETECTION \<and>
   streamRef (stopCamera cameraReady) = None \<and>
   filter held (streams (stopCamera cameraReady)) = [] \<and>
   filter held (streams (step (SelectMode SPEECH_TO_TEXT) cameraReady)) = [] \<and>
   streamRef (step (SelectMode OBJECT_DETECTION) cameraReady) = Some 0 \<and>
   streams (step (SelectMode OBJECT_DETECTION) cameraReady) = streams cameraReady"
proof -
  have h: "streamRef cameraReady = Some 0 \<and> 0 < length (streams cameraReady) \<and>
     held (streams cameraReady ! 0) \<and>
     (\<forall>j < length (streams cameraReady). held (streams cameraReady ! j) \<longrightarrow> j = 0) \<and>
     \<not> unmounted cameraReady \<and> \<not> isVisionMode SPEECH_TO_TEXT \<and> isVisionMode OBJECT_DETECTION"
    by (simp add: cameraReady_value held_def isVisionMode_def)
  have f: "filter held (streams cameraReady) = [[live]]"
    by (simp add: cameraReady_value held_def)
  from h f reachable_cameraReady
    stream_released_on_stop_and_teardown [of cameraReady 0 SPEECH_TO_TEXT]
    stream_released_on_stop_and_teardown [of cameraReady 0 OBJECT_DETECTION]
  show ?thesis by simp
qed

text \<open>
  C5, as stated, fails: not every mode switch empties the error. The speech panel stays
  mounted across a switch between the two speech modes and has no effect on \<open>mode\<close>; the
  error of a refused microphone, set in speech-to-text mode, is still set, and shown, after
  the switch to text-to-speech.
\<close>

theorem speech_mode_switch_keeps_the_error:
  "currentMode microphoneRefused = SPEECH_TO_TEXT \<and>
   currentMode (onModeSelect TEXT_TO_SPEECH microphoneRefused) = TEXT_TO_SPEECH \<and>
   displayedError (onModeSelect TEXT_TO_SPEECH microphoneRefused)
     = Some ''Microphone access denied or not available.''"
  by (simp add: microphoneRefused_def onModeSelect_def displayedError_def isVisionMode_def
      startRecording_denied_def mountSpeechPanel_def)

text \<open>
  C5, amended: for every mode switch that the vision panel sees, the session state of that
  panel resets: a switch to another vision mode sets the mode and leaves the displayed
  result empty, the error empty and the live-analyze flag false; a switch to a speech mode
  tears the panel down; a panel mounted anew (a switch from a speech mode) starts with the
  three in that state.
\<close>

theorem mode_switch_resets_session_state:
  "(reachable s \<and> \<not> unmounted s \<and> isVisionMode m \<and> m \<noteq> mode s \<longrightarrow>
      mode (step (SelectMode m) s) = m \<and>
      result (step (SelectMode m) s) = None \<and>
      error (step (SelectMode m) s) = None \<and>
      isAutoAnalyze (step (SelectMode m) s) = False) \<and>
   (\<not> unmounted s \<and> \<not> isVisionMode m \<longrightarrow> unmounted (step (SelectMode m) s)) \<and>
   result (mountVisionPanel m) = None \<and>
   error (mountVisionPanel m) = None \<and>
   isAutoAnalyze (mountVisionPanel m) = False"
proof -
  have "mode (step (SelectMode m) s) = m \<and>
      result (step (SelectMode m) s) = None \<and>
      error (step (SelectMode m) s) = None \<and>
      isAutoAnalyze (step (SelectMode m) s) = False"
    if h: "reachable s \<and> \<not> unmounted s \<and> isVisionMode m \<and> m \<noteq> mode s"
  proof -
    from h have "committed s" by (simp add: reachable_committed)
    with h show ?thesis
      by (auto simp add: step_def handle_def commit_fields committed_def)
  qed
  moreover have "unmounted (step (SelectMode m) s)" if "\<not> unmounted s \<and> \<not> isVisionMode m"
    using that by (simp add: step_def handle_def unmount_def)
  ultimately show ?thesis by (simp add: mountVisionPanel_def)
qed

theorem mode_switch_resets_session_state_witness:
  "reachable liveAnswered \<and> \<not> unmounted liveAnswered \<and> isVisionMode CLASSIFICATION \<and>
   CLASSIFICATION \<noteq> mode liveAnswered \<and>
   result liveAnswered = Some thumbsUp \<and> isAutoAnalyze liveAnswered \<and>
   mode (step (SelectMode CLASSIFICATION) liveAnswered) = CLASSIFICATION \<and>
   result (step (SelectMode CLASSIFICATION) liveAnswered) = None \<and>
   error (step (SelectMode CLASSIFICATION) liveAnswered) = None \<and>
   isAutoAnalyze (step (SelectMode CLASSIFICATION) liveAnswered) = False"
proof -
  have h: "reachable liveAnswered \<and> \<not> unmounted liveAnswered \<and> isVisionMode CLASSIFICATION \<and>
     CLASSIFICATION \<noteq> mode liveAnswered \<and>
     result liveAnswered = Some thumbsUp \<and> isAutoAnalyze liveAnswered"
    by (intro conjI; (rule reachable_examples | simp add: liveAnswered_value isVisionMode_def))
  from h mode_switch_resets_session_state [of liveAnswered CLASSIFICATION]
  show ?thesis by simp
qed

text \<open>
  C6 asks for the mode's delay after a capture. \<open>analyzeLoop\<close> sets that timer only when
  \<open>mounted\<close> is still true after its awaits; \<open>isLoading\<close> is a dependency of the effect, so
  submitting a frame (\<open>setIsLoading(true)\<close>) replaces the effect instance and its cleanup
  clears \<open>mounted\<close> of the run that submitted. In gesture mode, with the first frame
  submitted, the answer sets no timer at all, and the next capture is already under way.
  (Only a capture that yielded no frame is followed by the 500 ms timer.)
\<close>

theorem no_delay_after_a_submitted_frame:
  "mode liveAwaiting = HAND_GESTURES \<and> length (requests liveAwaiting) = 1 \<and>
   timeoutId (step (ServiceAnswers 0 (Inr thumbsUp)) liveAwaiting) = None \<and>
   length (captures (step (ServiceAnswers 0 (Inr thumbsUp)) liveAwaiting)) = 1 \<and>
   timeoutId (step (BlobReady 0 None) liveCapturing) = Some 500"
  by (simp add: liveAwaiting_value liveCapturing_value panel_defs)

text \<open>
  C7: while live analysis is enabled, a click on Capture and Analyze changes nothing: no
  frame capture is started and no request is issued.
\<close>

theorem manual_capture_rejected_while_live:
  "reachable s \<and> isAutoAnalyze s \<longrightarrow>
     step ClickCapture s = s \<and>
     captures (step ClickCapture s) = captures s \<and>
     requests (step ClickCapture s) = requests s"
proof (intro impI)
  assume h: "reachable s \<and> isAutoAnalyze s"
  have "step ClickCapture s = s"
  proof (cases "unmounted s")
    case True
    then show ?thesis by (simp add: step_def)
  next
    case False
    with h have "committed s" by (simp add: reachable_committed)
    with h show ?thesis by (simp add: step_def handle_def commit_committed)
  qed
  then show "step ClickCapture s = s \<and>
     captures (step ClickCapture s) = captures s \<and>
     requests (step ClickCapture s) = requests s" by simp
qed

theorem manual_capture_rejected_while_live_witness:
  "reachable liveAnswered \<and> isAutoAnalyze liveAnswered \<and>
   source liveAnswered = camera \<and> isStreaming liveAnswered \<and> \<not> isLoading liveAnswered \<and>
   step ClickCapture liveAnswered = liveAnswered \<and>
   length (captures (step ClickCapture cameraReady)) = 1"
proof -
  have h: "reachable liveAnswered \<and> isAutoAnalyze liveAnswered \<and>
     source liveAnswered = camera \<and> isStreaming liveAnswered \<and> \<not> isLoading liveAnswered"
    by (intro conjI; (rule reachable_examples | simp add: liveAnswered_value))
  have m: "length (captures (step ClickCapture cameraReady)) = 1"
    by (simp add: cameraReady_value panel_defs)
  from h m manual_capture_rejected_while_live [of liveAnswered]
  show ?thesis by simp
qed

text \<open>
  C8: a failed answer to a request of the loop changes neither the error nor the displayed
  result, and submitting a frame from the loop clears the error and keeps the result; a
  failed answer to a request of a manual capture sets the error
  \<open>Failed to process image.\<close>
\<close>

theorem failure_absorbed_in_loop_surfaced_for_manual:
  "reachable s \<and> \<not> unmounted s \<longrightarrow>
     (i < length (requests s) \<and> requestCaller (requests s ! i) = Loop g \<longrightarrow>
        error (step (ServiceAnswers i (Inl e)) s) = error s \<and>
        result (step (ServiceAnswers i (Inl e)) s) = result s) \<and>
     (j < length (captures s) \<and> captureCaller (captures s ! j) = Loop g \<and>
      captureCall (captures s ! j) \<noteq> None \<longrightarrow>
        error (step (BlobReady j (Some img)) s) = None \<and>
        result (step (BlobReady j (Some img)) s) = result s) \<and>
     (i < length (requests s) \<and> requestCaller (requests s ! i) = Manual \<longrightarrow>
        error (step (ServiceAnswers i (Inl e)) s) = Some ''Failed to process image.'')"
proof (intro impI)
  assume h: "reachable s \<and> \<not> unmounted s"
  then have c: "committed s" by (simp add: reachable_committed)
  have 1: "error (step (ServiceAnswers i (Inl e)) s) = error s \<and>
        result (step (ServiceAnswers i (Inl e)) s) = result s"
    if "i < length (requests s) \<and> requestCaller (requests s ! i) = Loop g"
  proof -
    from that h have "requestAuto (requests s ! i)" using loop_request_auto by blast
    with that h c show ?thesis
      by (simp add: step_ServiceAnswers commit_fields processImage_settled_fields committed_def)
  qed
  have 2: "error (step (BlobReady j (Some img)) s) = None \<and>
        result (step (BlobReady j (Some img)) s) = result s"
    if "j < length (captures s) \<and> captureCaller (captures s ! j) = Loop g \<and>
      captureCall (captures s ! j) \<noteq> None"
  proof -
    from that h have "captureAuto (captures s ! j)" using loop_capture_auto by blast
    with that h c show ?thesis
      by (simp add: step_BlobReady commit_fields capture_settled_frame processImage_fields
          capture_settled_fields committed_def)
  qed
  have 3: "error (step (ServiceAnswers i (Inl e)) s) = Some ''Failed to process image.''"
    if "i < length (requests s) \<and> requestCaller (requests s ! i) = Manual"
  proof -
    from that h have "\<not> requestAuto (requests s ! i)" using manual_request_auto by blast
    with that h c show ?thesis
      by (simp add: step_ServiceAnswers commit_fields processImage_settled_fields committed_def)
  qed
  show "(i < length (requests s) \<and> requestCaller (requests s ! i) = Loop g \<longrightarrow>
        error (step (ServiceAnswers i (Inl e)) s) = error s \<and>
        result (step (ServiceAnswers i (Inl e)) s) = result s) \<and>
     (j < length (captures s) \<and> captureCaller (captures s ! j) = Loop g \<and>
      captureCall (captures s ! j) \<noteq> None \<longrightarrow>
        error (step (BlobReady j (Some img)) s) = None \<and>
        result (step (BlobReady j (Some img)) s) = result s) \<and>
     (i < length (requests s) \<and> requestCaller (requests s ! i) = Manual \<longrightarrow>
        error (step (ServiceAnswers i (Inl e)) s) = Some ''Failed to process image.'')"
    using 1 2 3 by blast
qed

theorem failure_absorbed_in_loop_surfaced_for_manual_witness:
  "reachable liveAwaiting \<and> \<not> unmounted liveAwaiting \<and>
   requestCaller (requests liveAwaiting ! 0) = Loop 2 \<and>
   error (step (ServiceAnswers 0 (Inl RequestFailed)) liveAwaiting) = None \<and>
   result (step (ServiceAnswers 0 (Inl RequestFailed)) liveAwaiting) = result liveAwaiting \<and>
   reachable liveAnswered \<and> \<not> unmounted liveAnswered \<and>
   captureCaller (captures liveAnswered ! 0) = Loop 4 \<and>
   result (step (BlobReady 0 (Some frame)) liveAnswered) = Some thumbsUp \<and>
   reachable manualAwaiting \<and> \<not> unmounted manualAwaiting \<and>
   requestCaller (requests manualAwaiting ! 0) = Manual \<and>
   error (step (ServiceAnswers 0 (Inl RequestFailed)) manualAwaiting)
     = Some ''Failed to process image.''"
proof -
  have l: "reachable liveAwaiting \<and> \<not> unmounted liveAwaiting \<and>
     0 < length (requests liveAwaiting) \<and> requestCaller (requests liveAwaiting ! 0) = Loop 2 \<and>
     error liveAwaiting = None"
    by (intro conjI; (rule reachable_examples | simp add: liveAwaiting_value))
  have a: "reachable liveAnswered \<and> \<not> unmounted liveAnswered \<and>
     0 < length (captures liveAnswered) \<and> captureCaller (captures liveAnswered ! 0) = Loop 4 \<and>
     captureCall (captures liveAnswered ! 0) \<noteq> None \<and> result liveAnswered = Some thumbsUp"
    by (intro conjI; (rule reachable_examples | simp add: liveAnswered_value))
  have m: "reachable manualAwaiting \<and> \<not> unmounted manualAwaiting \<and>
     0 < length (requests manualAwaiting) \<and> requestCaller (requests manualAwaiting ! 0) = Manual"
    by (intro conjI; (rule reachable_examples | simp add: manualAwaiting_value))
  from l a m
    failure_absorbed_in_loop_surfaced_for_manual [of liveAwaiting 0 2 RequestFailed 0 frame]
    failure_absorbed_in_loop_surfaced_for_manual [of liveAnswered 0 4 RequestFailed 0 frame]
    failure_absorbed_in_loop_surfaced_for_manual [of manualAwaiting 0 2 RequestFailed 0 frame]
  show ?thesis by simp
qed

text \<open>
  C9: in a browser whose \<open>toBlob\<close> hands over no blob exactly for a canvas without pixels,
  \<open>captureFrame\<close> resolves with the blob of \<open>toBlob\<close> for the type \<open>image/jpeg\<close> and the
  quality 0.8 when the video has a non-zero width and height, and with no frame when the
  width or the height is zero, when there is no video element, and after \<open>stopCamera\<close>
  (which detaches the stream).
\<close>

theorem captureFrame_contract:
  "(\<forall>w h. (toBlob w h ''image/jpeg'' (8 / 10) = None) = (w = 0 \<or> h = 0)) \<longrightarrow>
   (0 < videoWidth v \<and> 0 < videoHeight v \<longrightarrow>
      (\<exists>b. captureFrame_resolved toBlob (captureFrame (Some v) True True) = Some b \<and>
           toBlob (videoWidth v) (videoHeight v) ''image/jpeg'' (8 / 10) = Some b)) \<and>
   (videoWidth v = 0 \<or> videoHeight v = 0 \<longrightarrow>
      captureFrame_resolved toBlob (captureFrame (Some v) True True) = None) \<and>
   captureFrame_resolved toBlob (captureFrame None canvas ctx) = None \<and>
   captureFrame_resolved toBlob (sampleFrame (stopCamera s)) = None"
proof (intro impI)
  assume html: "\<forall>w h. (toBlob w h ''image/jpeg'' (8 / 10) = None) = (w = 0 \<or> h = 0)"
  have 1: "\<exists>b. captureFrame_resolved toBlob (captureFrame (Some v) True True) = Some b \<and>
           toBlob (videoWidth v) (videoHeight v) ''image/jpeg'' (8 / 10) = Some b"
    if "0 < videoWidth v \<and> 0 < videoHeight v"
  proof -
    from that html have "toBlob (videoWidth v) (videoHeight v) ''image/jpeg'' (8 / 10) \<noteq> None"
      by simp
    then obtain b where "toBlob (videoWidth v) (videoHeight v) ''image/jpeg'' (8 / 10) = Some b"
      by blast
    then show ?thesis by (simp add: captureFrame_resolved_video)
  qed
  have 2: "captureFrame_resolved toBlob (captureFrame (Some v) True True) = None"
    if "videoWidth v = 0 \<or> videoHeight v = 0"
    using that html by (simp add: captureFrame_resolved_video)
  have 3: "captureFrame_resolved toBlob (captureFrame None canvas ctx) = None"
    by (simp add: captureFrame_def captureFrame_resolved_def)
  have "toBlob 0 0 ''image/jpeg'' (8 / 10) = None" using html by simp
  then have 4: "captureFrame_resolved toBlob (sampleFrame (stopCamera s)) = None"
    using sampleFrame_stopCamera [of s] by (auto simp add: captureFrame_resolved_def)
  show "(0 < videoWidth v \<and> 0 < videoHeight v \<longrightarrow>
      (\<exists>b. captureFrame_resolved toBlob (captureFrame (Some v) True True) = Some b \<and>
           toBlob (videoWidth v) (videoHeight v) ''image/jpeg'' (8 / 10) = Some b)) \<and>
   (videoWidth v = 0 \<or> videoHeight v = 0 \<longrightarrow>
      captureFrame_resolved toBlob (captureFrame (Some v) True True) = None) \<and>
   captureFrame_resolved toBlob (captureFrame None canvas ctx) = None \<and>
   captureFrame_resolved toBlob (sampleFrame (stopCamera s)) = None"
    using 1 2 3 4 by blast
qed

theorem captureFrame_contract_witness:
  "(\<forall>w h. (browserToBlob w h ''image/jpeg'' (8 / 10) = None) = (w = 0 \<or> h = 0)) \<and>
   captureFrame_resolved browserToBlob (sampleFrame cameraReady)
     = Some \<lparr>blobType = ''image/jpeg'', blobSize = 921600\<rparr> \<and>
   captureFrame_resolved browserToBlob
     (captureFrame (Some \<lparr>srcObject = Some 0, videoWidth = 0, videoHeight = 0\<rparr>) True True) = None \<and>
   captureFrame_resolved browserToBlob (sampleFrame (stopCamera cameraReady)) = None"
proof -
  have html: "\<forall>w h. (browserToBlob w h ''image/jpeg'' (8 / 10) = None) = (w = 0 \<or> h = 0)"
    by (simp add: browserToBlob_def)
  have v: "sampleFrame cameraReady =
      captureFrame (Some \<lparr>srcObject = Some 0, videoWidth = 1280, videoHeight = 720\<rparr>) True True"
    by (simp add: sampleFrame_def cameraReady_value)
  have b: "browserToBlob 1280 720 ''image/jpeg'' (8 / 10)
      = Some \<lparr>blobType = ''image/jpeg'', blobSize = 921600\<rparr>"
    by (simp add: browserToBlob_def)
  from html
    captureFrame_contract
      [of browserToBlob "\<lparr>srcObject = Some 0, videoWidth = 1280, videoHeight = 720\<rparr>"
        True True cameraReady]
    captureFrame_contract
      [of browserToBlob "\<lparr>srcObject = Some 0, videoWidth = 0, videoHeight = 0\<rparr>"
        True True cameraReady]
  show ?thesis using v b by auto
qed

subsection \<open>More about the loop\<close>

text \<open>
  X1, back-pressure: when the timer of the loop fires while live analysis is on, the camera is
  streaming and the busy flag is set, the only effect is a new timer of 200 ms: no capture
  is started and no request is issued.
\<close>

theorem tick_while_busy_only_reschedules:
  "reachable s \<and> \<not> unmounted s \<and> isAutoAnalyze s \<and> isStreaming s \<and> isLoading s \<and>
   timeoutId s \<noteq> None \<longrightarrow>
     step TimerFires s = s\<lparr>timeoutId := Some 200\<rparr> \<and>
     captures (step TimerFires s) = captures s \<and>
     requests (step TimerFires s) = requests s"
proof (intro impI)
  assume h: "reachable s \<and> \<not> unmounted s \<and> isAutoAnalyze s \<and> isStreaming s \<and> isLoading s \<and>
   timeoutId s \<noteq> None"
  then have "committed s" by (simp add: reachable_committed)
  then have "committed (s\<lparr>timeoutId := Some 200\<rparr>)" by (simp add: committed_def loopDepsOf_def)
  with h have "step TimerFires s = s\<lparr>timeoutId := Some 200\<rparr>"
    by (auto simp add: step_def handle_def analyzeLoop_def commit_committed)
  then show "step TimerFires s = s\<lparr>timeoutId := Some 200\<rparr> \<and>
     captures (step TimerFires s) = captures s \<and>
     requests (step TimerFires s) = requests s" by simp
qed


theorem tick_while_busy_only_reschedules_witness:
  "reachable liveAwaiting \<and> \<not> unmounted liveAwaiting \<and> isAutoAnalyze liveAwaiting \<and>
   isStreaming liveAwaiting \<and> isLoading liveAwaiting \<and> timeoutId liveAwaiting = Some 200 \<and>
   length (requests liveAwaiting) = 1 \<and>
   requests (step TimerFires liveAwaiting) = requests liveAwaiting \<and>
   captures (step TimerFires liveAwaiting) = [] \<and>
   timeoutId (step TimerFires liveAwaiting) = Some 200"
proof -
  have h: "reachable liveAwaiting \<and> \<not> unmounted liveAwaiting \<and> isAutoAnalyze liveAwaiting \<and>
     isStreaming liveAwaiting \<and> isLoading liveAwaiting \<and> timeoutId liveAwaiting = Some 200 \<and>
     length (requests liveAwaiting) = 1 \<and> captures liveAwaiting = []"
    by (intro conjI; (rule reachable_examples | simp add: liveAwaiting_value))
  from h tick_while_busy_only_reschedules [of liveAwaiting] show ?thesis by simp
qed

text \<open>
  X2, the answer to a request of the loop, arriving while the busy flag is set: the run that
  awaits it belongs to an effect instance that is no longer the current one, so no timer is
  pending afterwards; when live analysis is still on and the camera streaming, the new
  effect instance has already started the next capture.
\<close>

theorem answer_to_loop_request_schedules_no_delay:
  "reachable s \<and> \<not> unmounted s \<and> isLoading s \<and> i < length (requests s) \<and>
   requestCaller (requests s ! i) = Loop g \<longrightarrow>
     g < effectGen s \<and>
     timeoutId (step (ServiceAnswers i answer) s) = None \<and>
     captures (step (ServiceAnswers i answer) s) =
       (if isAutoAnalyze s \<and> isStreaming s
        then captures s @
               [\<lparr>captureCaller = Loop (effectGen s + 1), captureMode = mode s,
                 captureAuto = True, captureCall = sampleFrame s\<rparr>]
        else captures s)"
proof (intro impI)
  assume h: "reachable s \<and> \<not> unmounted s \<and> isLoading s \<and> i < length (requests s) \<and>
     requestCaller (requests s ! i) = Loop g"
  then have c: "committed s" by (simp add: reachable_committed)
  from h have g: "g < effectGen s" using loop_request_stale by blast
  let ?s = "s\<lparr>requests := take i (requests s) @ drop (Suc i) (requests s)\<rparr>"
  let ?h = "processImage_settled (requests s ! i) answer ?s"
  have f: "timeoutId ?h = timeoutId s" "effectGen ?h = effectGen s"
    "loopDeps ?h = loopDeps s" "videoRef ?h = videoRef s"
    using h g
    by (simp_all add: processImage_settled_def Let_def resume_def analyzeLoop_reschedule_def
        split: sum.splits)
  have st: "step (ServiceAnswers i answer) s = render ?h"
    using h c
    by (simp add: step_ServiceAnswers commit_once processImage_settled_fields committed_def)
  have d: "loopDeps ?h \<noteq> loopDepsOf ?h"
    using h c by (simp add: f committed_def loopDepsOf_def processImage_settled_fields)
  have sf: "sampleFrame ?h = sampleFrame s" by (simp add: sampleFrame_def f)
  from g d c have "timeoutId (render ?h) = None \<and>
     captures (render ?h) =
       (if isAutoAnalyze s \<and> isStreaming s
        then captures s @
               [\<lparr>captureCaller = Loop (effectGen s + 1), captureMode = mode s,
                 captureAuto = True, captureCall = sampleFrame s\<rparr>]
        else captures s)"
    by (simp add: timeoutId_render captures_render processImage_settled_fields f sf committed_def)
  with g st show "g < effectGen s \<and>
     timeoutId (step (ServiceAnswers i answer) s) = None \<and>
     captures (step (ServiceAnswers i answer) s) =
       (if isAutoAnalyze s \<and> isStreaming s
        then captures s @
               [\<lparr>captureCaller = Loop (effectGen s + 1), captureMode = mode s,
                 captureAuto = True, captureCall = sampleFrame s\<rparr>]
        else captures s)" by simp
qed

theorem answer_to_loop_request_schedules_no_delay_witness:
  "reachable liveAwaiting \<and> \<not> unmounted liveAwaiting \<and> isLoading liveAwaiting \<and>
   requestCaller (requests liveAwaiting ! 0) = Loop 2 \<and> effectGen liveAwaiting = 3 \<and>
   timeoutId (step (ServiceAnswers 0 (Inl RequestFailed)) liveAwaiting) = None \<and>
   length (captures (step (ServiceAnswers 0 (Inl RequestFailed)) liveAwaiting)) = 1"
proof -
  have h: "reachable liveAwaiting \<and> \<not> unmounted liveAwaiting \<and> isLoading liveAwaiting \<and>
     0 < length (requests liveAwaiting) \<and>
     requestCaller (requests liveAwaiting ! 0) = Loop 2 \<and> effectGen liveAwaiting = 3 \<and>
     isAutoAnalyze liveAwaiting \<and> isStreaming liveAwaiting \<and> captures liveAwaiting = []"
    by (intro conjI; (rule reachable_examples | simp add: liveAwaiting_value))
  from h answer_to_loop_request_schedules_no_delay [of liveAwaiting 0 2 "Inl RequestFailed"]
  show ?thesis by simp
qed

text \<open>
  X3, a capture of the current run of the loop that yields no frame: the loop sets its next
  timer, 500 ms in gesture mode and 2500 ms in the other modes, and issues no request.
\<close>

theorem capture_without_frame_schedules_mode_delay:
  "reachable s \<and> \<not> unmounted s \<and> j < length (captures s) \<and>
   captureCaller (captures s ! j) = Loop (effectGen s) \<longrightarrow>
     timeoutId (step (BlobReady j None) s) =
       Some (if captureMode (captures s ! j) = HAND_GESTURES then 500 else 2500) \<and>
     requests (step (BlobReady j None) s) = requests s \<and>
     captures (step (BlobReady j None) s) = take j (captures s) @ drop (Suc j) (captures s)"
proof (intro impI)
  assume h: "reachable s \<and> \<not> unmounted s \<and> j < length (captures s) \<and>
     captureCaller (captures s ! j) = Loop (effectGen s)"
  then have c: "committed s" by (simp add: reachable_committed)
  from h have a: "captureAuto (captures s ! j)" using loop_capture_auto by blast
  let ?d = "if captureMode (captures s ! j) = HAND_GESTURES then 500 else 2500"
  let ?h = "s\<lparr>captures := take j (captures s) @ drop (Suc j) (captures s), timeoutId := Some ?d\<rparr>"
  have "capture_settled (captures s ! j) None
          (s\<lparr>captures := take j (captures s) @ drop (Suc j) (captures s)\<rparr>) = ?h"
    using h a by (simp add: capture_settled_def resume_def analyzeLoop_reschedule_def)
  moreover from c have "committed ?h" by (simp add: committed_def loopDepsOf_def)
  ultimately have "step (BlobReady j None) s = ?h"
    using h by (simp add: step_BlobReady commit_committed)
  then show "timeoutId (step (BlobReady j None) s) =
       Some (if captureMode (captures s ! j) = HAND_GESTURES then 500 else 2500) \<and>
     requests (step (BlobReady j None) s) = requests s \<and>
     captures (step (BlobReady j None) s) = take j (captures s) @ drop (Suc j) (captures s)"
    by simp
qed

theorem capture_without_frame_schedules_mode_delay_witness:
  "reachable liveCapturing \<and> \<not> unmounted liveCapturing \<and>
   captureCaller (captures liveCapturing ! 0) = Loop (effectGen liveCapturing) \<and>
   captureMode (captures liveCapturing ! 0) = HAND_GESTURES \<and>
   timeoutId (step (BlobReady 0 None) liveCapturing) = Some 500 \<and>
   requests (step (BlobReady 0 None) liveCapturing) = []"
proof -
  have h: "reachable liveCapturing \<and> \<not> unmounted liveCapturing \<and>
     0 < length (captures liveCapturing) \<and>
     captureCaller (captures liveCapturing ! 0) = Loop (effectGen liveCapturing) \<and>
     captureMode (captures liveCapturing ! 0) = HAND_GESTURES \<and> requests liveCapturing = []"
    by (intro conjI; (rule reachable_examples | simp add: liveCapturing_value))
  from h capture_without_frame_schedules_mode_delay [of liveCapturing 0]
  show ?thesis by simp
qed

end
